theory Spec2Isabelle
  imports Main "HOL-Library.AList"
begin

section \<open>JSON values, Python dictionaries and exceptions\<close>

text \<open>
  The broker of \<^verbatim>\<open>server.py\<close> exchanges JSON frames. A frame is a Python
  \<^verbatim>\<open>Dict[str, Any]\<close>: an association list in insertion order. JSON numbers are
  modelled as integers (floating point is left out).
\<close>

datatype json =
    JNull
  | JBool bool
  | JInt int
  | JStr string
  | JList "json list"
  | JObj "(string \<times> json) list"

type_synonym pydict = "(string \<times> json) list"

text \<open>\<^verbatim>\<open>d.get(k)\<close> gives \<^verbatim>\<open>None\<close> for a missing key, \<^verbatim>\<open>d.get(k, default)\<close> the default.\<close>

definition dict_get :: "pydict \<Rightarrow> string \<Rightarrow> json" where
  "dict_get d k = (case map_of d k of None \<Rightarrow> JNull | Some v \<Rightarrow> v)"

definition dict_get_default :: "pydict \<Rightarrow> string \<Rightarrow> json \<Rightarrow> json" where
  "dict_get_default d k dflt = (case map_of d k of None \<Rightarrow> dflt | Some v \<Rightarrow> v)"

text \<open>Python truthiness, as tested by \<^verbatim>\<open>if not function_name\<close>.\<close>

fun truthy :: "json \<Rightarrow> bool" where
  "truthy JNull = False"
| "truthy (JBool b) = b"
| "truthy (JInt i) = (i \<noteq> 0)"
| "truthy (JStr s) = (s \<noteq> [])"
| "truthy (JList xs) = (xs \<noteq> [])"
| "truthy (JObj kvs) = (kvs \<noteq> [])"

text \<open>
  Keys of the dictionary \<^verbatim>\<open>pending_requests\<close>. Python hashes \<^verbatim>\<open>None\<close>, booleans,
  numbers and strings; \<^verbatim>\<open>True\<close> and \<^verbatim>\<open>1\<close> are the same key; a list or a dict is
  unhashable and using it as a key raises \<^verbatim>\<open>TypeError\<close>.
\<close>

datatype key = KNone | KNum int | KStr string

fun hash_key :: "json \<Rightarrow> key option" where
  "hash_key JNull = Some KNone"
| "hash_key (JBool b) = Some (KNum (if b then 1 else 0))"
| "hash_key (JInt i) = Some (KNum i)"
| "hash_key (JStr s) = Some (KStr s)"
| "hash_key (JList xs) = None"
| "hash_key (JObj kvs) = None"

text \<open>
  The exceptions of the broker: the two \<^verbatim>\<open>Exception(text)\<close> that \<^verbatim>\<open>send_to_unity\<close>
  raises itself, the \<^verbatim>\<open>KeyError\<close> of \<^verbatim>\<open>del\<close> on a missing key, the \<^verbatim>\<open>TypeError\<close> of an
  unhashable key, the \<^verbatim>\<open>ValueError\<close> of \<^verbatim>\<open>list.remove\<close>, the \<^verbatim>\<open>AttributeError\<close> of
  \<^verbatim>\<open>.get\<close> on a JSON value that is not an object, the \<^verbatim>\<open>RuntimeError\<close> by which the web
  framework refuses a call, and whatever \<^verbatim>\<open>send_json\<close> raises on a broken channel (with
  its text).
\<close>

datatype exn =
    PyException string
  | KeyError json
  | TypeError json
  | ValueError
  | AttributeError
  | RuntimeError
  | TransportError string

text \<open>
  \<^verbatim>\<open>str(e)\<close>: the text of an \<^verbatim>\<open>Exception(text)\<close> is its argument; the text of an
  exception raised by the Python runtime or a library is given by the parameter \<open>rt\<close>.
\<close>

fun str_exn :: "(exn \<Rightarrow> string) \<Rightarrow> exn \<Rightarrow> string" where
  "str_exn rt (PyException m) = m"
| "str_exn rt e = rt e"

text \<open>\<^verbatim>\<open>str(n)\<close> of a non-negative integer: its decimal digits.\<close>

definition digit_char :: "nat \<Rightarrow> char" where
  "digit_char d = char_of (48 + d)"

fun str_nat :: "nat \<Rightarrow> string" where
  "str_nat n = (if n < 10 then [digit_char n] else str_nat (n div 10) @ [digit_char (n mod 10)])"

declare str_nat.simps [simp del]

section \<open>The state of the broker\<close>

text \<open>
  Websockets and futures are Python objects; the model names them by numbers. A future is
  pending, holds a result (\<^verbatim>\<open>set_result\<close>) or is cancelled (by the timeout of
  \<^verbatim>\<open>asyncio.wait_for\<close>).
\<close>

type_synonym ws = nat
type_synonym fut = nat

datatype fstate = FPending | FResult pydict | FCancelled

fun fut_done :: "fstate \<Rightarrow> bool" where
  "fut_done FPending = False"
| "fut_done (FResult r) = True"
| "fut_done FCancelled = True"

text \<open>
  One call of \<^verbatim>\<open>send_to_unity\<close> that has registered a future: its local variables
  \<^verbatim>\<open>request_id\<close> and \<^verbatim>\<open>message\<close>, the identity \<^verbatim>\<open>id(message)\<close> of the message object,
  whether the identifier was generated from it, the instant at which the timeout of
  \<^verbatim>\<open>wait_for\<close> elapses, the future, and what the call has returned (\<open>Inr\<close>) or raised
  (\<open>Inl\<close>); \<open>None\<close> while the coroutine is suspended in \<^verbatim>\<open>wait_for\<close>.
\<close>

record call =
  request_id :: json
  request_message :: pydict
  message_obj :: nat
  generated :: bool
  deadline :: nat
  future :: fstate
  outcome :: "(exn + pydict) option"

text \<open>
  A running \<^verbatim>\<open>websocket_endpoint\<close> coroutine: its local \<^verbatim>\<open>client_type\<close>, and whether it
  waits in \<^verbatim>\<open>receive_json\<close> or in \<^verbatim>\<open>send_to_unity\<close> (on the future given).
\<close>

datatype hstate = Receiving | Forwarding fut

record handler =
  client_type :: json
  hstate :: hstate

text \<open>
  The three fields of \<^verbatim>\<open>ConnectionManager\<close>, then the rest of the world: the calls (a
  future is its index in \<open>calls\<close>), the clock, the frames written by \<^verbatim>\<open>send_json\<close> with
  their channel, the identifiers of the \<^verbatim>\<open>logger.warning\<close> of
  \<^verbatim>\<open>handle_unity_response\<close>, and the running websocket handlers.
\<close>

record sys =
  active_connections :: "ws list"
  unity_connection :: "ws option"
  pending_requests :: "key \<rightharpoonup> fut"
  calls :: "call list"
  now :: nat
  sent :: "(ws \<times> pydict) list"
  warnings :: "json list"
  handlers :: "ws \<rightharpoonup> handler"

definition init_sys :: sys where
  "init_sys = \<lparr>active_connections = [], unity_connection = None,
     pending_requests = Map.empty, calls = [], now = 0, sent = [], warnings = [],
     handlers = Map.empty\<rparr>"

section \<open>ConnectionManager\<close>

text \<open>
  \<^verbatim>\<open>connect\<close> begins with \<^verbatim>\<open>await websocket.accept()\<close>, a call into the web framework:
  \<open>acc\<close> is what that call raises, if it does, and then nothing is registered. Otherwise
  the channel is appended; the client type \<^verbatim>\<open>"unity"\<close> makes it the executor, replacing
  any earlier one. The \<^verbatim>\<open>logger.info\<close> lines are left out.
\<close>

definition connect :: "ws \<Rightarrow> json \<Rightarrow> exn option \<Rightarrow> sys \<Rightarrow> exn + sys" where
  "connect websocket ctype acc s =
     (case acc of
        Some e \<Rightarrow> Inl e
      | None \<Rightarrow>
          let s1 = s\<lparr>active_connections := active_connections s @ [websocket]\<rparr>
          in Inr (if ctype = JStr ''unity'' then s1\<lparr>unity_connection := Some websocket\<rparr>
                  else s1))"

text \<open>
  \<^verbatim>\<open>disconnect\<close>: \<^verbatim>\<open>list.remove\<close> deletes the first occurrence and raises \<^verbatim>\<open>ValueError\<close>
  when there is none (before the executor slot is looked at).
\<close>

definition disconnect :: "ws \<Rightarrow> sys \<Rightarrow> exn + sys" where
  "disconnect websocket s =
     (if websocket \<notin> set (active_connections s) then Inl ValueError
      else
        let s1 = s\<lparr>active_connections := remove1 websocket (active_connections s)\<rparr>
        in Inr (if unity_connection s1 = Some websocket
                then s1\<lparr>unity_connection := None\<rparr> else s1))"

text \<open>The timeout of \<^verbatim>\<open>asyncio.wait_for(future, timeout=30.0)\<close>.\<close>

definition timeout :: nat where
  "timeout = 30"

text \<open>
  \<^verbatim>\<open>send_to_unity\<close> up to the point where it waits for the future, taken as one step.
  \<open>obj\<close> is \<^verbatim>\<open>id(message)\<close>, a number whose \<^verbatim>\<open>str\<close> is the identifier of a message that
  has none; \<open>tx\<close> is what \<^verbatim>\<open>send_json\<close> on the executor channel raises, if it does. The
  result is the exception raised (\<open>Inl\<close>) or the future now awaited (\<open>Inr\<close>), the message
  as the call has mutated it, and the new state. An unhashable identifier raises at the
  assignment to \<^verbatim>\<open>pending_requests\<close>; a \<^verbatim>\<open>send_json\<close> that raises leaves the entry there.
\<close>

definition send_to_unity ::
  "pydict \<Rightarrow> nat \<Rightarrow> exn option \<Rightarrow> sys \<Rightarrow> (exn + fut) \<times> pydict \<times> sys" where
  "send_to_unity msg obj tx s =
     (case unity_connection s of
        None \<Rightarrow> (Inl (PyException ''No Unity connection available''), msg, s)
      | Some u \<Rightarrow>
          let rid = dict_get_default msg ''id'' (JStr (str_nat obj));
              msg' = AList.update ''id'' rid msg
          in (case hash_key rid of
                None \<Rightarrow> (Inl (TypeError rid), msg', s)
              | Some k \<Rightarrow>
                  let f = length (calls s);
                      c = \<lparr>request_id = rid, request_message = msg', message_obj = obj,
                           generated = (map_of msg ''id'' = None),
                           deadline = now s + timeout, future = FPending, outcome = None\<rparr>;
                      s1 = s\<lparr>pending_requests := (pending_requests s)(k \<mapsto> f)\<rparr>
                  in (case tx of
                        Some e \<Rightarrow>
                          (Inl e, msg', s1\<lparr>calls := calls s @ [c\<lparr>outcome := Some (Inl e)\<rparr>]\<rparr>)
                      | None \<Rightarrow>
                          (Inr f, msg',
                           s1\<lparr>calls := calls s @ [c], sent := sent s @ [(u, msg')]\<rparr>))))"

text \<open>
  \<^verbatim>\<open>asyncio.wait_for\<close> returns the result of the future as soon as it has one. When
  its timeout elapses first, it cancels the future and, once the coroutine runs again,
  raises \<^verbatim>\<open>TimeoutError\<close> in it; the event loop may run other coroutines in between, so
  the two are separate steps. First the cancellation, for the call awaiting future \<open>f\<close>:
  nothing happens before the deadline or to a call that is not waiting.
\<close>

definition timer_fires :: "fut \<Rightarrow> sys \<Rightarrow> sys" where
  "timer_fires f s =
     (if f < length (calls s) \<and> outcome (calls s ! f) = None
         \<and> future (calls s ! f) = FPending \<and> deadline (calls s ! f) \<le> now s
      then s\<lparr>calls := (calls s)[f := (calls s ! f)\<lparr>future := FCancelled\<rparr>]\<rparr>
      else s)"

text \<open>
  The \<^verbatim>\<open>except asyncio.TimeoutError\<close> branch of \<^verbatim>\<open>send_to_unity\<close>, run when the
  coroutine resumes after the cancellation: \<^verbatim>\<open>del self.pending_requests[request_id]\<close>,
  which raises \<^verbatim>\<open>KeyError\<close> when the key is absent, then
  \<^verbatim>\<open>raise Exception("Request to Unity timed out")\<close>.
\<close>

definition timeout_handler :: "fut \<Rightarrow> sys \<Rightarrow> sys" where
  "timeout_handler f s =
     (if f < length (calls s) \<and> outcome (calls s ! f) = None
         \<and> future (calls s ! f) = FCancelled
      then
        (case hash_key (request_id (calls s ! f)) of
           None \<Rightarrow> s
         | Some k \<Rightarrow>
             (case pending_requests s k of
                None \<Rightarrow>
                  s\<lparr>calls := (calls s)[f := (calls s ! f)
                      \<lparr>outcome := Some (Inl (KeyError (request_id (calls s ! f))))\<rparr>]\<rparr>
              | Some g \<Rightarrow>
                  s\<lparr>pending_requests := (pending_requests s)(k := None),
                    calls := (calls s)[f := (calls s ! f)
                      \<lparr>outcome := Some (Inl (PyException ''Request to Unity timed out''))\<rparr>]\<rparr>))
      else s)"

text \<open>
  \<^verbatim>\<open>future.set_result(response)\<close>: the future holds the response, and the coroutine
  waiting for it returns the response.
\<close>

definition set_result :: "fut \<Rightarrow> pydict \<Rightarrow> sys \<Rightarrow> sys" where
  "set_result f response s =
     s\<lparr>calls := (calls s)[f := (calls s ! f)
         \<lparr>future := FResult response,
          outcome := (case outcome (calls s ! f) of
                        None \<Rightarrow> Some (Inr response) | Some r \<Rightarrow> Some r)\<rparr>]\<rparr>"

text \<open>
  \<^verbatim>\<open>handle_unity_response\<close>: the result is the exception raised, if any (the
  \<^verbatim>\<open>TypeError\<close> of \<^verbatim>\<open>in\<close> on an unhashable identifier), and the new state.
\<close>

definition handle_unity_response :: "pydict \<Rightarrow> sys \<Rightarrow> exn option \<times> sys" where
  "handle_unity_response response s =
     (let rid = dict_get response ''id''
      in case hash_key rid of
           None \<Rightarrow> (Some (TypeError rid), s)
         | Some k \<Rightarrow>
             (case pending_requests s k of
                Some f \<Rightarrow>
                  let s1 = s\<lparr>pending_requests := (pending_requests s)(k := None)\<rparr>
                  in (None, if \<not> fut_done (future (calls s1 ! f))
                            then set_result f response s1 else s1)
              | None \<Rightarrow> (None, s\<lparr>warnings := warnings s @ [rid]\<rparr>)))"

section \<open>The websocket endpoint and the HTTP routes\<close>

text \<open>
  \<^verbatim>\<open>websocket_endpoint\<close> is one coroutine per connection. It is modelled by the pieces
  it runs between two suspensions. A frame is any JSON value, as \<^verbatim>\<open>receive_json\<close> returns
  it. Writes to a client channel are taken to succeed.
\<close>

text \<open>
  The end of a handler: \<^verbatim>\<open>manager.disconnect(websocket)\<close> in either \<^verbatim>\<open>except\<close> clause of
  the endpoint; a \<^verbatim>\<open>ValueError\<close> of \<^verbatim>\<open>disconnect\<close> (the channel is not registered) leaves
  the manager as it is.
\<close>

definition ws_end :: "ws \<Rightarrow> sys \<Rightarrow> sys" where
  "ws_end websocket s =
     (let s1 = (case disconnect websocket s of Inl e \<Rightarrow> s | Inr s' \<Rightarrow> s')
      in s1\<lparr>handlers := (handlers s1)(websocket := None)\<rparr>)"

text \<open>
  The handshake. The endpoint accepts the socket itself, reads the first frame, takes its
  \<^verbatim>\<open>client_type\<close> (\<^verbatim>\<open>"unknown"\<close> when it has none; \<^verbatim>\<open>.get\<close> raises when the frame is not an
  object) and calls \<^verbatim>\<open>manager.connect\<close>, which accepts the same socket a second time:
  \<open>acc\<close> is what that second \<^verbatim>\<open>accept\<close> raises, the \<^verbatim>\<open>RuntimeError\<close> of a framework that
  refuses to accept an accepted socket. Any exception ends the handler in the outer
  \<^verbatim>\<open>except\<close> clause before the loop is entered, with nothing registered. A websocket
  object that is still served by a handler cannot appear again.
\<close>

definition ws_open :: "ws \<Rightarrow> json \<Rightarrow> exn option \<Rightarrow> sys \<Rightarrow> sys" where
  "ws_open websocket first_message acc s =
     (if handlers s websocket \<noteq> None then s
      else
        (case first_message of
           JObj d \<Rightarrow>
             let ctype = dict_get_default d ''client_type'' (JStr ''unknown'')
             in (case connect websocket ctype acc s of
                   Inl e \<Rightarrow> ws_end websocket s
                 | Inr s1 \<Rightarrow>
                     s1\<lparr>handlers := (handlers s1)(websocket \<mapsto>
                          \<lparr>client_type = ctype, hstate = Receiving\<rparr>)\<rparr>)
         | _ \<Rightarrow> ws_end websocket s))"

text \<open>
  The branch \<^verbatim>\<open>client_type == "unity"\<close> of the loop: the frame goes to
  \<^verbatim>\<open>handle_unity_response\<close>, whose \<^verbatim>\<open>response.get\<close> raises at once when the frame is not
  an object; an exception there ends the handler.
\<close>

definition ws_unity_message :: "ws \<Rightarrow> json \<Rightarrow> sys \<Rightarrow> sys" where
  "ws_unity_message websocket frame s =
     (case frame of
        JObj response \<Rightarrow>
          (case handle_unity_response response s of
             (None, s') \<Rightarrow> s'
           | (Some e, s') \<Rightarrow> ws_end websocket s')
      | _ \<Rightarrow> ws_end websocket s)"

text \<open>The two replies the endpoint builds itself.\<close>

definition missing_function_reply :: "pydict \<Rightarrow> pydict" where
  "missing_function_reply msg =
     [(''id'', dict_get msg ''id''), (''success'', JBool False),
      (''error'', JStr ''Missing function name'')]"

definition error_reply :: "(exn \<Rightarrow> string) \<Rightarrow> pydict \<Rightarrow> exn \<Rightarrow> pydict" where
  "error_reply rt msg e =
     [(''id'', dict_get msg ''id''), (''success'', JBool False),
      (''error'', JStr (str_exn rt e))]"

text \<open>
  The \<^verbatim>\<open>else\<close> branch of the loop for a frame that is an object, run by handler \<open>h\<close> up to
  the suspension in \<^verbatim>\<open>send_to_unity\<close>: a frame with no function name is answered at once;
  an exception of \<^verbatim>\<open>send_to_unity\<close> is answered by the \<^verbatim>\<open>except\<close> clause, which reads the
  identifier from the mutated message. (\<^verbatim>\<open>params\<close> is read and not used.)
\<close>

definition ws_client_message ::
  "(exn \<Rightarrow> string) \<Rightarrow> ws \<Rightarrow> handler \<Rightarrow> pydict \<Rightarrow> nat \<Rightarrow> exn option \<Rightarrow> sys \<Rightarrow> sys" where
  "ws_client_message rt websocket h msg obj tx s =
     (if \<not> truthy (dict_get msg ''function'')
      then s\<lparr>sent := sent s @ [(websocket, missing_function_reply msg)]\<rparr>
      else
        (case send_to_unity msg obj tx s of
           (Inl e, msg', s') \<Rightarrow> s'\<lparr>sent := sent s' @ [(websocket, error_reply rt msg' e)]\<rparr>
         | (Inr f, msg', s') \<Rightarrow>
             s'\<lparr>handlers := (handlers s')(websocket \<mapsto> h\<lparr>hstate := Forwarding f\<rparr>)\<rparr>))"

text \<open>
  One frame arrives at a handler that waits in \<^verbatim>\<open>receive_json\<close>; a socket with no
  handler has nobody to read it. In the \<^verbatim>\<open>else\<close> branch a frame that is not an object
  makes \<^verbatim>\<open>message.get("function")\<close> raise, and \<^verbatim>\<open>message.get("id")\<close> raise again inside
  the \<^verbatim>\<open>except\<close> clause that would have replied: the handler ends and nothing is sent.
\<close>

definition ws_receive ::
  "(exn \<Rightarrow> string) \<Rightarrow> ws \<Rightarrow> json \<Rightarrow> nat \<Rightarrow> exn option \<Rightarrow> sys \<Rightarrow> sys" where
  "ws_receive rt websocket frame obj tx s =
     (case handlers s websocket of
        None \<Rightarrow> s
      | Some h \<Rightarrow>
          if hstate h \<noteq> Receiving then s
          else if client_type h = JStr ''unity'' then ws_unity_message websocket frame s
          else
            (case frame of
               JObj msg \<Rightarrow> ws_client_message rt websocket h msg obj tx s
             | _ \<Rightarrow> ws_end websocket s))"

text \<open>
  The handler resumes when its call of \<^verbatim>\<open>send_to_unity\<close> has returned or raised: it
  relays the response, or the reply of the \<^verbatim>\<open>except\<close> clause, and waits for the next
  frame.
\<close>

definition ws_resume :: "(exn \<Rightarrow> string) \<Rightarrow> ws \<Rightarrow> sys \<Rightarrow> sys" where
  "ws_resume rt websocket s =
     (case handlers s websocket of
        None \<Rightarrow> s
      | Some h \<Rightarrow>
          (case hstate h of
             Receiving \<Rightarrow> s
           | Forwarding f \<Rightarrow>
               if f < length (calls s) then
                 (case outcome (calls s ! f) of
                    None \<Rightarrow> s
                  | Some r \<Rightarrow>
                      s\<lparr>sent := sent s @
                          [(websocket,
                            case r of
                              Inr response \<Rightarrow> response
                            | Inl e \<Rightarrow> error_reply rt (request_message (calls s ! f)) e)],
                        handlers := (handlers s)(websocket \<mapsto> h\<lparr>hstate := Receiving\<rparr>)\<rparr>)
               else s))"

text \<open>\<^verbatim>\<open>receive_json\<close> raises \<^verbatim>\<open>WebSocketDisconnect\<close>: the peer has closed.\<close>

definition ws_disconnect :: "ws \<Rightarrow> sys \<Rightarrow> sys" where
  "ws_disconnect websocket s =
     (case handlers s websocket of
        None \<Rightarrow> s
      | Some h \<Rightarrow> if hstate h = Receiving then ws_end websocket s else s)"

text \<open>
  The seven HTTP routes differ in the function name and the parameters only: each calls
  \<^verbatim>\<open>send_to_unity\<close> on a fresh message with no identifier, and turns what the call
  returns or raises into a \<^verbatim>\<open>FunctionResponse\<close>. The validation done by
  \<^verbatim>\<open>FunctionResponse(**response)\<close> is the parameter \<open>validate\<close> (its \<open>Inl\<close> is the text of
  the validation error).
\<close>

record function_response =
  success :: bool
  message :: "string option"
  data :: json
  error :: "string option"

datatype route =
    ExecuteMenuItem
  | ManageScript
  | ManageEditor
  | ManageScene
  | ManageAsset
  | ManageGameObject
  | ReadConsole

fun route_function :: "route \<Rightarrow> string" where
  "route_function ExecuteMenuItem = ''execute_menu_item''"
| "route_function ManageScript = ''manage_script''"
| "route_function ManageEditor = ''manage_editor''"
| "route_function ManageScene = ''manage_scene''"
| "route_function ManageAsset = ''manage_asset''"
| "route_function ManageGameObject = ''manage_gameobject''"
| "route_function ReadConsole = ''read_console''"

text \<open>
  The route up to its suspension in \<^verbatim>\<open>send_to_unity\<close>; \<open>params\<close> is \<^verbatim>\<open>request.dict()\<close>.
\<close>

definition route_message :: "route \<Rightarrow> json \<Rightarrow> pydict" where
  "route_message r params = [(''function'', JStr (route_function r)), (''params'', params)]"

definition route_call ::
  "route \<Rightarrow> json \<Rightarrow> nat \<Rightarrow> exn option \<Rightarrow> sys \<Rightarrow> (exn + fut) \<times> pydict \<times> sys" where
  "route_call r params obj tx s = send_to_unity (route_message r params) obj tx s"

text \<open>
  The rest of the route: \<open>r\<close> is what \<^verbatim>\<open>send_to_unity\<close> has returned (\<open>Inr\<close>) or raised
  (\<open>Inl\<close>).
\<close>

definition route_result ::
  "(pydict \<Rightarrow> string + function_response) \<Rightarrow> (exn \<Rightarrow> string) \<Rightarrow> exn + pydict
     \<Rightarrow> function_response" where
  "route_result validate rt r =
     (case r of
        Inr response \<Rightarrow>
          (case validate response of
             Inr fr \<Rightarrow> fr
           | Inl txt \<Rightarrow> \<lparr>success = False, message = None, data = JNull, error = Some txt\<rparr>)
      | Inl e \<Rightarrow>
          \<lparr>success = False, message = None, data = JNull, error = Some (str_exn rt e)\<rparr>)"

section \<open>Runs of the broker\<close>

text \<open>
  The coroutines interleave on one event loop: a run is a list of events, each one piece
  of code run to its next suspension, or the clock advancing. An event that cannot
  happen in the state leaves it unchanged. A new message object never has the identity
  of the message of a call that is still suspended (its frame keeps the message alive,
  and Python gives live objects distinct identities).
\<close>

definition obj_live :: "sys \<Rightarrow> nat \<Rightarrow> bool" where
  "obj_live s obj = list_ex (\<lambda>c. outcome c = None \<and> message_obj c = obj) (calls s)"

datatype event =
    WsOpen ws json "exn option"
  | WsReceive ws json nat "exn option"
  | WsResume ws
  | WsDisconnect ws
  | RouteCall route json nat "exn option"
  | TimerFires fut
  | TimeoutHandler fut
  | Tick nat

fun step :: "(exn \<Rightarrow> string) \<Rightarrow> event \<Rightarrow> sys \<Rightarrow> sys" where
  "step rt (WsOpen websocket first_message acc) s = ws_open websocket first_message acc s"
| "step rt (WsReceive websocket frame obj tx) s =
     (if obj_live s obj then s else ws_receive rt websocket frame obj tx s)"
| "step rt (WsResume websocket) s = ws_resume rt websocket s"
| "step rt (WsDisconnect websocket) s = ws_disconnect websocket s"
| "step rt (RouteCall r params obj tx) s =
     (if obj_live s obj then s else snd (snd (route_call r params obj tx s)))"
| "step rt (TimerFires f) s = timer_fires f s"
| "step rt (TimeoutHandler f) s = timeout_handler f s"
| "step rt (Tick d) s = s\<lparr>now := now s + d\<rparr>"

fun run :: "(exn \<Rightarrow> string) \<Rightarrow> event list \<Rightarrow> sys \<Rightarrow> sys" where
  "run rt [] s = s"
| "run rt (e # es) s = run rt es (step rt e s)"

section \<open>Invariants of the broker\<close>

text \<open>
  What every run keeps true of the calls. An entry of \<^verbatim>\<open>pending_requests\<close> names a
  future that exists, was registered under that very key and holds no result.
\<close>

definition inv_pending :: "sys \<Rightarrow> bool" where
  "inv_pending s \<longleftrightarrow>
     (\<forall>k f. pending_requests s k = Some f \<longrightarrow>
        f < length (calls s) \<and> hash_key (request_id (calls s ! f)) = Some k
        \<and> (future (calls s ! f) = FPending \<or> future (calls s ! f) = FCancelled))"

text \<open>
  A future is cancelled by the timeout only, so no earlier than its deadline.
\<close>

definition inv_cancelled :: "sys \<Rightarrow> bool" where
  "inv_cancelled s \<longleftrightarrow>
     (\<forall>f. f < length (calls s) \<longrightarrow> future (calls s ! f) = FCancelled \<longrightarrow>
        deadline (calls s ! f) \<le> now s)"

text \<open>
  A generated identifier is \<^verbatim>\<open>str(id(message))\<close> of the call's own message.
\<close>

definition inv_generated :: "sys \<Rightarrow> bool" where
  "inv_generated s \<longleftrightarrow>
     (\<forall>f. f < length (calls s) \<longrightarrow> generated (calls s ! f) \<longrightarrow>
        request_id (calls s ! f) = JStr (str_nat (message_obj (calls s ! f))))"

text \<open>
  The messages of the calls that are still suspended are distinct objects.
\<close>

definition inv_objs :: "sys \<Rightarrow> bool" where
  "inv_objs s \<longleftrightarrow>
     (\<forall>f g. f < length (calls s) \<longrightarrow> g < length (calls s) \<longrightarrow> f \<noteq> g \<longrightarrow>
        outcome (calls s ! f) = None \<longrightarrow> outcome (calls s ! g) = None \<longrightarrow>
        message_obj (calls s ! f) \<noteq> message_obj (calls s ! g))"

text \<open>
  A call returns a response only through \<^verbatim>\<open>set_result\<close> on its future.
\<close>

definition inv_outcome :: "sys \<Rightarrow> bool" where
  "inv_outcome s \<longleftrightarrow>
     (\<forall>f r. f < length (calls s) \<longrightarrow> outcome (calls s ! f) = Some (Inr r) \<longrightarrow>
        future (calls s ! f) = FResult r)"

definition inv_calls :: "sys \<Rightarrow> bool" where
  "inv_calls s \<longleftrightarrow>
     inv_pending s \<and> inv_cancelled s \<and> inv_generated s \<and> inv_objs s \<and> inv_outcome s"

text \<open>
  The registry: no channel is registered twice, the registered channels are those with a
  running handler, and the executor is a channel whose handler read the client type
  \<^verbatim>\<open>"unity"\<close>.
\<close>

definition inv_conn :: "sys \<Rightarrow> bool" where
  "inv_conn s \<longleftrightarrow>
     distinct (active_connections s) \<and> set (active_connections s) = dom (handlers s)
     \<and> (\<forall>u. unity_connection s = Some u \<longrightarrow>
          (\<exists>h. handlers s u = Some h \<and> client_type h = JStr ''unity''))"

definition sys_inv :: "sys \<Rightarrow> bool" where
  "sys_inv s \<longleftrightarrow> inv_calls s \<and> inv_conn s"

text \<open>
  A future that no entry of \<^verbatim>\<open>pending_requests\<close> names and that holds no result; and a
  step from \<open>s\<close> to \<open>s'\<close> that leaves such a future and what its call has returned or
  raised alone.
\<close>

definition detached :: "sys \<Rightarrow> fut \<Rightarrow> bool" where
  "detached s f \<longleftrightarrow>
     f < length (calls s) \<and> (\<forall>k. pending_requests s k \<noteq> Some f)
     \<and> (\<forall>r. future (calls s ! f) \<noteq> FResult r)
     \<and> (\<forall>r. outcome (calls s ! f) \<noteq> Some (Inr r))"

definition quiet :: "sys \<Rightarrow> sys \<Rightarrow> fut \<Rightarrow> bool" where
  "quiet s s' f \<longleftrightarrow>
     detached s' f \<and> request_id (calls s' ! f) = request_id (calls s ! f)
     \<and> outcome (calls s' ! f) = outcome (calls s ! f)"

section \<open>Example runs\<close>

text \<open>
  The runs used to instantiate the theorems below. In them the runtime's exception texts
  are left empty, no exception of the runtime being turned into a reply. Where nothing
  else is said the second \<^verbatim>\<open>accept\<close> of a handshake raises nothing.
\<close>

definition no_text :: "exn \<Rightarrow> string" where
  "no_text e = []"

text \<open>
  The executor 0 and the clients 1 and 2 have connected.
\<close>

definition two_clients :: sys where
  "two_clients = run no_text
     [WsOpen 0 (JObj [(''client_type'', JStr ''unity'')]) None,
      WsOpen 1 (JObj [(''client_type'', JStr ''mcp_client'')]) None,
      WsOpen 2 (JObj []) None] init_sys"

text \<open>
  Client 1 has a request \<^verbatim>\<open>"r1"\<close> in flight since instant 0; the clock shows 29.
\<close>

definition one_pending :: sys where
  "one_pending = run no_text
     [WsOpen 0 (JObj [(''client_type'', JStr ''unity'')]) None,
      WsOpen 1 (JObj [(''client_type'', JStr ''mcp_client'')]) None,
      WsReceive 1 (JObj [(''id'', JStr ''r1''), (''function'', JStr ''ping''), (''params'', JObj [])]) 7 None,
      Tick 29] init_sys"

text \<open>
  Two clients have one request each in flight, \<^verbatim>\<open>"r1"\<close> and \<^verbatim>\<open>"r2"\<close>.
\<close>

definition two_pending :: sys where
  "two_pending = run no_text
     [WsOpen 0 (JObj [(''client_type'', JStr ''unity'')]) None,
      WsOpen 1 (JObj [(''client_type'', JStr ''mcp_client'')]) None,
      WsOpen 2 (JObj [(''client_type'', JStr ''mcp_client'')]) None,
      WsReceive 1 (JObj [(''id'', JStr ''r1''), (''function'', JStr ''ping'')]) 7 None,
      WsReceive 2 (JObj [(''id'', JStr ''r2''), (''function'', JStr ''ping'')]) 8 None] init_sys"

text \<open>
  Two HTTP routes have been called; both calls wait for the executor.
\<close>

definition two_routes :: sys where
  "two_routes = run no_text
     [WsOpen 0 (JObj [(''client_type'', JStr ''unity'')]) None,
      RouteCall ManageEditor (JObj [(''action'', JStr ''play'')]) 7 None,
      RouteCall ManageScene (JObj [(''action'', JStr ''save'')]) 8 None] init_sys"

text \<open>
  A second editor (channel 1) has registered after the first (channel 0); client 2 has a
  request in flight.
\<close>

definition superseded :: sys where
  "superseded = run no_text
     [WsOpen 0 (JObj [(''client_type'', JStr ''unity'')]) None,
      WsOpen 1 (JObj [(''client_type'', JStr ''unity'')]) None,
      WsOpen 2 (JObj [(''client_type'', JStr ''mcp_client'')]) None,
      WsReceive 2 (JObj [(''id'', JStr ''r1''), (''function'', JStr ''ping'')]) 7 None] init_sys"

text \<open>
  In \<open>one_pending\<close>, a second request arrives with the identifier \<^verbatim>\<open>"r1"\<close> again.
\<close>

definition replaced :: sys where
  "replaced = snd (snd (send_to_unity [(''id'', JStr ''r1''), (''function'', JStr ''ping'')] 8 None
     one_pending))"

text \<open>
  Two clients send a request with the same identifier \<^verbatim>\<open>"r1"\<close>; the executor never
  answers, and both calls time out, the first one first.
\<close>

definition duplicate_ids :: sys where
  "duplicate_ids = run no_text
     [WsOpen 0 (JObj [(''client_type'', JStr ''unity'')]) None,
      WsOpen 1 (JObj [(''client_type'', JStr ''mcp_client'')]) None,
      WsOpen 2 (JObj [(''client_type'', JStr ''mcp_client'')]) None,
      WsReceive 1 (JObj [(''id'', JStr ''r1''), (''function'', JStr ''ping'')]) 7 None,
      WsReceive 2 (JObj [(''id'', JStr ''r1''), (''function'', JStr ''ping'')]) 8 None,
      Tick 30,
      TimerFires 0, TimeoutHandler 0,
      TimerFires 1, TimeoutHandler 1] init_sys"

text \<open>
  One request \<^verbatim>\<open>"r2"\<close>; the timeout elapses; the response arrives after the future has
  been cancelled and before the call runs its \<^verbatim>\<open>except\<close> branch.
\<close>

definition late_reply :: sys where
  "late_reply = run no_text
     [WsOpen 0 (JObj [(''client_type'', JStr ''unity'')]) None,
      WsOpen 1 (JObj [(''client_type'', JStr ''mcp_client'')]) None,
      WsReceive 1 (JObj [(''id'', JStr ''r2''), (''function'', JStr ''ping'')]) 7 None,
      Tick 30,
      TimerFires 0,
      WsReceive 0 (JObj [(''id'', JStr ''r2''), (''success'', JBool True)]) 8 None,
      TimeoutHandler 0] init_sys"

text \<open>
  An editor and a client open a connection each, and the framework refuses the second
  \<^verbatim>\<open>accept\<close> of both handshakes with \<^verbatim>\<open>RuntimeError\<close>.
\<close>

definition refused_handshakes :: sys where
  "refused_handshakes = run no_text
     [WsOpen 0 (JObj [(''client_type'', JStr ''unity'')]) (Some RuntimeError),
      WsOpen 1 (JObj [(''client_type'', JStr ''mcp_client'')]) (Some RuntimeError)] init_sys"

text \<open>
  The frames of \<^verbatim>\<open>src/test_connection.py\<close>: the test client declares itself, then asks
  for the editor state with the identifier \<^verbatim>\<open>"test_request"\<close>; an editor has tried to
  connect before. The second \<^verbatim>\<open>accept\<close> of each handshake is refused.
\<close>

definition test_connection :: sys where
  "test_connection = run no_text
     [WsOpen 0 (JObj [(''client_type'', JStr ''unity'')]) (Some RuntimeError),
      WsOpen 1 (JObj [(''client_type'', JStr ''mcp_client''),
                      (''client_name'', JStr ''Windsurf_Test'')]) (Some RuntimeError),
      WsReceive 1 (JObj [(''id'', JStr ''test_request''), (''function'', JStr ''manage_editor''),
                         (''params'', JObj [(''action'', JStr ''get_state'')])]) 7 None,
      WsResume 1] init_sys"

section \<open>What each operation of the manager does to the state\<close>

lemmas model_defs =
  init_sys_def connect_def disconnect_def send_to_unity_def timer_fires_def
  timeout_handler_def set_result_def handle_unity_response_def ws_open_def ws_end_def
  ws_unity_message_def missing_function_reply_def error_reply_def ws_client_message_def
  ws_receive_def ws_resume_def ws_disconnect_def route_message_def route_call_def
  obj_live_def dict_get_def dict_get_default_def timeout_def Let_def

lemma timer_fires_cases:
  "timer_fires f s = s \<or>
   (f < length (calls s) \<and> future (calls s ! f) = FPending \<and> outcome (calls s ! f) = None
    \<and> deadline (calls s ! f) \<le> now s
    \<and> timer_fires f s = s\<lparr>calls := (calls s)[f := (calls s ! f)\<lparr>future := FCancelled\<rparr>]\<rparr>)"
  by (simp add: timer_fires_def)

lemma timeout_handler_cases:
  "timeout_handler f s = s \<or>
   (f < length (calls s) \<and> future (calls s ! f) = FCancelled \<and> outcome (calls s ! f) = None
    \<and> (\<exists>k e. hash_key (request_id (calls s ! f)) = Some k
         \<and> e \<in> {PyException ''Request to Unity timed out'', KeyError (request_id (calls s ! f))}
         \<and> timeout_handler f s =
             s\<lparr>pending_requests := (pending_requests s)(k := None),
               calls := (calls s)[f := (calls s ! f)\<lparr>outcome := Some (Inl e)\<rparr>]\<rparr>))"
proof (cases "f < length (calls s) \<and> outcome (calls s ! f) = None \<and> future (calls s ! f) = FCancelled")
  case False
  then show ?thesis by (auto simp: timeout_handler_def)
next
  case g: True
  show ?thesis
  proof (cases "hash_key (request_id (calls s ! f))")
    case None
    with g show ?thesis by (simp add: timeout_handler_def)
  next
    case (Some k)
    show ?thesis
    proof (cases "pending_requests s k")
      case None
      then have "(pending_requests s)(k := None) = pending_requests s"
        by (simp add: fun_upd_idem)
      with g Some None show ?thesis by (auto simp: timeout_handler_def)
    next
      case p: (Some g')
      with g Some show ?thesis by (auto simp: timeout_handler_def)
    qed
  qed
qed

lemma handle_unity_response_cases:
  "snd (handle_unity_response r s) = s \<or>
   snd (handle_unity_response r s) = s\<lparr>warnings := warnings s @ [dict_get r ''id'']\<rparr> \<or>
   (\<exists>k f. hash_key (dict_get r ''id'') = Some k \<and> pending_requests s k = Some f
      \<and> (snd (handle_unity_response r s) =
             s\<lparr>pending_requests := (pending_requests s)(k := None)\<rparr>
          \<or> future (calls s ! f) = FPending
             \<and> snd (handle_unity_response r s) =
                 s\<lparr>pending_requests := (pending_requests s)(k := None),
                   calls := (calls s)[f := (calls s ! f)\<lparr>future := FResult r,
                     outcome := (case outcome (calls s ! f) of
                                   None \<Rightarrow> Some (Inr r) | Some x \<Rightarrow> Some x)\<rparr>]\<rparr>))"
proof (cases "hash_key (dict_get r ''id'')")
  case None
  then show ?thesis by (simp add: handle_unity_response_def)
next
  case (Some k)
  show ?thesis
  proof (cases "pending_requests s k")
    case None
    with Some show ?thesis by (simp add: handle_unity_response_def)
  next
    case f: (Some f)
    show ?thesis
      using Some f
      by (cases "future (calls s ! f)")
         (simp_all add: handle_unity_response_def set_result_def)
  qed
qed

lemma send_to_unity_cases:
  "snd (snd (send_to_unity msg obj tx s)) = s \<or>
   (\<exists>k c snt. hash_key (request_id c) = Some k \<and> future c = FPending
      \<and> message_obj c = obj \<and> deadline c = now s + timeout
      \<and> (\<forall>r. outcome c \<noteq> Some (Inr r))
      \<and> (generated c \<longrightarrow> request_id c = JStr (str_nat obj))
      \<and> snd (snd (send_to_unity msg obj tx s)) =
          s\<lparr>pending_requests := (pending_requests s)(k \<mapsto> length (calls s)),
            calls := calls s @ [c], sent := snt\<rparr>)"
proof (cases "unity_connection s")
  case None
  then show ?thesis by (simp add: send_to_unity_def)
next
  case u: (Some u)
  show ?thesis
  proof (cases "hash_key (dict_get_default msg ''id'' (JStr (str_nat obj)))")
    case None
    with u show ?thesis by (simp add: send_to_unity_def Let_def)
  next
    case (Some k)
    have gen: "map_of msg ''id'' = None \<Longrightarrow>
       dict_get_default msg ''id'' (JStr (str_nat obj)) = JStr (str_nat obj)"
      by (simp add: dict_get_default_def)
    show ?thesis
    proof (cases tx)
      case None
      show ?thesis
        apply (rule disjI2)
        apply (rule exI [of _ k])
        using u Some None gen
        apply (simp add: send_to_unity_def Let_def)
        apply (rule exI [of _ "\<lparr>request_id = dict_get_default msg ''id'' (JStr (str_nat obj)),
           request_message = AList.update ''id'' (dict_get_default msg ''id'' (JStr (str_nat obj))) msg,
           message_obj = obj, generated = (map_of msg ''id'' = None),
           deadline = now s + timeout, future = FPending, outcome = None\<rparr>"])
        apply simp
        apply (rule exI [of _ "sent s @ [(u, AList.update ''id'' (dict_get_default msg ''id'' (JStr (str_nat obj))) msg)]"])
        apply simp
        done
    next
      case e: (Some e)
      show ?thesis
        apply (rule disjI2)
        apply (rule exI [of _ k])
        using u Some e gen
        apply (simp add: send_to_unity_def Let_def)
        apply (rule exI [of _ "\<lparr>request_id = dict_get_default msg ''id'' (JStr (str_nat obj)),
           request_message = AList.update ''id'' (dict_get_default msg ''id'' (JStr (str_nat obj))) msg,
           message_obj = obj, generated = (map_of msg ''id'' = None),
           deadline = now s + timeout, future = FPending, outcome = Some (Inl e)\<rparr>"])
        apply simp
        apply (rule exI [of _ "sent s"])
        apply simp
        done
    qed
  qed
qed

lemma handlers_send_to_unity:
  "handlers (snd (snd (send_to_unity msg obj tx s))) = handlers s"
  by (simp add: send_to_unity_def Let_def split: option.splits)

lemma handlers_timer_fires: "handlers (timer_fires f s) = handlers s"
  by (simp add: timer_fires_def)

lemma handlers_timeout_handler: "handlers (timeout_handler f s) = handlers s"
  by (simp add: timeout_handler_def split: option.splits)

lemma handlers_response: "handlers (snd (handle_unity_response r s)) = handlers s"
  by (simp add: handle_unity_response_def set_result_def Let_def split: option.splits)

lemma handlers_ws_end: "handlers (ws_end w s) = (handlers s)(w := None)"
  by (simp add: ws_end_def disconnect_def Let_def)

lemma handlers_ws_unity_message:
  "handlers (ws_unity_message w frame s) = handlers s
   \<or> handlers (ws_unity_message w frame s) = (handlers s)(w := None)"
proof (cases "\<exists>msg. frame = JObj msg")
  case True
  then obtain msg where frame: "frame = JObj msg" by blast
  show ?thesis
  proof (cases "handle_unity_response msg s")
    case (Pair x s')
    with handlers_response [of msg s] have "handlers s' = handlers s" by simp
    with Pair frame show ?thesis
      by (cases x) (simp_all add: ws_unity_message_def handlers_ws_end)
  qed
next
  case False
  then have "ws_unity_message w frame s = ws_end w s"
    by (cases frame) (simp_all add: ws_unity_message_def)
  then show ?thesis by (simp add: handlers_ws_end)
qed

lemma handlers_ws_client_message:
  "handlers (ws_client_message rt w h msg obj tx s) = handlers s
   \<or> (\<exists>x. handlers (ws_client_message rt w h msg obj tx s) = (handlers s)(w \<mapsto> h\<lparr>hstate := x\<rparr>))"
proof (cases "send_to_unity msg obj tx s")
  case (fields r msg' s')
  with handlers_send_to_unity [of msg obj tx s] have "handlers s' = handlers s" by simp
  with fields show ?thesis
    by (cases r) (auto simp: ws_client_message_def)
qed

lemma handlers_ws_open:
  assumes "handlers (ws_open w' first acc s) w = Some h'"
  shows "handlers s w = Some h'
       \<or> (\<exists>d. w' = w \<and> first = JObj d \<and> acc = None
            \<and> client_type h' = dict_get_default d ''client_type'' (JStr ''unknown''))"
proof (cases "handlers s w' = None \<and> (\<exists>d. first = JObj d) \<and> acc = None")
  case True
  then obtain d where "first = JObj d" and "acc = None" and "handlers s w' = None" by blast
  with assms show ?thesis
    by (auto simp: ws_open_def connect_def Let_def split: if_splits)
next
  case False
  then have "ws_open w' first acc s = s \<or> ws_open w' first acc s = ws_end w' s"
    by (cases first; cases acc) (auto simp: ws_open_def connect_def)
  with assms show ?thesis
    by (auto simp: handlers_ws_end split: if_splits)
qed

lemma handlers_ws_receive:
  assumes "handlers (ws_receive rt w' frame obj tx s) w = Some h'"
  shows "\<exists>h. handlers s w = Some h \<and> client_type h = client_type h'"
proof (cases "handlers s w'")
  case None
  with assms show ?thesis by (simp add: ws_receive_def)
next
  case (Some h)
  show ?thesis
  proof (cases "hstate h = Receiving")
    case False
    with Some assms show ?thesis by (simp add: ws_receive_def)
  next
    case recv: True
    show ?thesis
    proof (cases "client_type h = JStr ''unity''")
      case True
      with Some recv have "ws_receive rt w' frame obj tx s = ws_unity_message w' frame s"
        by (simp add: ws_receive_def)
      with assms handlers_ws_unity_message [of w' frame s] show ?thesis
        by (auto split: if_splits)
    next
      case False
      show ?thesis
      proof (cases "\<exists>msg. frame = JObj msg")
        case True
        then obtain msg where "frame = JObj msg" by blast
        with Some recv False
        have "ws_receive rt w' frame obj tx s = ws_client_message rt w' h msg obj tx s"
          by (simp add: ws_receive_def)
        with assms Some handlers_ws_client_message [of rt w' h msg obj tx s] show ?thesis
          by (auto split: if_splits)
      next
        case nobj: False
        with Some recv False have "ws_receive rt w' frame obj tx s = ws_end w' s"
          by (cases frame) (simp_all add: ws_receive_def)
        with assms show ?thesis
          by (auto simp: handlers_ws_end split: if_splits)
      qed
    qed
  qed
qed

lemma run_snoc: "run rt (es @ [e]) s = step rt e (run rt es s)"
  by (induction es arbitrary: s) simp_all

lemma triple_collapse: "x = (fst x, fst (snd x), snd (snd x))"
  by simp

lemma route_failures_become_responses:
  "route_result validate rt (Inl e) =
      \<lparr>success = False, message = None, data = JNull, error = Some (str_exn rt e)\<rparr>
   \<and> route_result validate rt (Inr response) =
      (case validate response of
         Inr fr \<Rightarrow> fr
       | Inl txt \<Rightarrow> \<lparr>success = False, message = None, data = JNull, error = Some txt\<rparr>)"
  by (simp add: route_result_def)

section \<open>The invariants hold in every run\<close>

subsection \<open>Elementary updates\<close>

lemma inv_pendingD:
  assumes "inv_pending s" and "pending_requests s k = Some f"
  shows "f < length (calls s)" and "hash_key (request_id (calls s ! f)) = Some k"
    and "future (calls s ! f) = FPending \<or> future (calls s ! f) = FCancelled"
  using assms unfolding inv_pending_def by blast+

lemma inv_pendingI:
  assumes "\<And>k f. pending_requests s k = Some f \<Longrightarrow>
     f < length (calls s) \<and> hash_key (request_id (calls s ! f)) = Some k
     \<and> (future (calls s ! f) = FPending \<or> future (calls s ! f) = FCancelled)"
  shows "inv_pending s"
  using assms unfolding inv_pending_def by blast

lemma inv_pending_inj:
  assumes "inv_pending s" and "pending_requests s k = Some f" and "pending_requests s k' = Some f"
  shows "k = k'"
  using inv_pendingD(2) [OF assms(1,2)] inv_pendingD(2) [OF assms(1,3)] by simp

lemma inv_pending_drop:
  assumes "inv_pending s"
  shows "inv_pending (s\<lparr>pending_requests := (pending_requests s)(k := None)\<rparr>)"
proof (rule inv_pendingI)
  fix k' f
  assume "pending_requests (s\<lparr>pending_requests := (pending_requests s)(k := None)\<rparr>) k' = Some f"
  then have "pending_requests s k' = Some f"
    by (simp split: if_splits)
  from inv_pendingD [OF assms this]
  show "f < length (calls (s\<lparr>pending_requests := (pending_requests s)(k := None)\<rparr>))
      \<and> hash_key (request_id (calls (s\<lparr>pending_requests := (pending_requests s)(k := None)\<rparr>) ! f)) = Some k'
      \<and> (future (calls (s\<lparr>pending_requests := (pending_requests s)(k := None)\<rparr>) ! f) = FPending
         \<or> future (calls (s\<lparr>pending_requests := (pending_requests s)(k := None)\<rparr>) ! f) = FCancelled)"
    by simp
qed

lemma inv_pending_call:
  assumes sys_inv: "inv_pending s"
    and rid: "request_id c' = request_id (calls s ! f)"
    and fut: "future c' = FPending \<or> future c' = FCancelled \<or> (\<forall>k. pending_requests s k \<noteq> Some f)"
  shows "inv_pending (s\<lparr>calls := (calls s)[f := c']\<rparr>)"
proof (rule inv_pendingI)
  fix k g
  assume "pending_requests (s\<lparr>calls := (calls s)[f := c']\<rparr>) k = Some g"
  then have p: "pending_requests s k = Some g"
    by simp
  note D = inv_pendingD [OF sys_inv p]
  show "g < length (calls (s\<lparr>calls := (calls s)[f := c']\<rparr>))
      \<and> hash_key (request_id (calls (s\<lparr>calls := (calls s)[f := c']\<rparr>) ! g)) = Some k
      \<and> (future (calls (s\<lparr>calls := (calls s)[f := c']\<rparr>) ! g) = FPending
         \<or> future (calls (s\<lparr>calls := (calls s)[f := c']\<rparr>) ! g) = FCancelled)"
  proof (cases "g = f")
    case True
    with D rid fut p show ?thesis by auto
  next
    case False
    with D show ?thesis by simp
  qed
qed

lemma inv_pending_append:
  assumes sys_inv: "inv_pending s"
    and key: "hash_key (request_id c) = Some k"
    and fut: "future c = FPending"
  shows "inv_pending (s\<lparr>pending_requests := (pending_requests s)(k \<mapsto> length (calls s)),
            calls := calls s @ [c]\<rparr>)"
proof (rule inv_pendingI)
  fix k' g
  let ?s' = "s\<lparr>pending_requests := (pending_requests s)(k \<mapsto> length (calls s)),
            calls := calls s @ [c]\<rparr>"
  assume p': "pending_requests ?s' k' = Some g"
  show "g < length (calls ?s') \<and> hash_key (request_id (calls ?s' ! g)) = Some k'
      \<and> (future (calls ?s' ! g) = FPending \<or> future (calls ?s' ! g) = FCancelled)"
  proof (cases "k' = k")
    case True
    with p' have "g = length (calls s)" by simp
    with True key fut show ?thesis by simp
  next
    case False
    with p' have p: "pending_requests s k' = Some g" by simp
    from inv_pendingD [OF sys_inv p] show ?thesis by (simp add: nth_append)
  qed
qed

lemma inv_cancelled_call:
  assumes "inv_cancelled s" and "future c' = FCancelled \<longrightarrow> deadline c' \<le> now s"
  shows "inv_cancelled (s\<lparr>calls := (calls s)[f := c']\<rparr>)"
  unfolding inv_cancelled_def
proof (intro allI impI)
  fix g
  assume "g < length (calls (s\<lparr>calls := (calls s)[f := c']\<rparr>))"
    and "future (calls (s\<lparr>calls := (calls s)[f := c']\<rparr>) ! g) = FCancelled"
  with assms show "deadline (calls (s\<lparr>calls := (calls s)[f := c']\<rparr>) ! g)
      \<le> now (s\<lparr>calls := (calls s)[f := c']\<rparr>)"
    by (cases "g = f") (simp_all add: inv_cancelled_def)
qed

lemma inv_cancelled_append:
  assumes "inv_cancelled s" and "future c = FPending"
  shows "inv_cancelled (s\<lparr>calls := calls s @ [c]\<rparr>)"
  using assms by (auto simp: inv_cancelled_def nth_append less_Suc_eq)

lemma inv_cancelled_tick:
  assumes "inv_cancelled s"
  shows "inv_cancelled (s\<lparr>now := now s + d\<rparr>)"
  using assms by (force simp: inv_cancelled_def)

lemma inv_generated_call:
  assumes "inv_generated s" and "f < length (calls s)" and "request_id c' = request_id (calls s ! f)"
    and "message_obj c' = message_obj (calls s ! f)" and "generated c' = generated (calls s ! f)"
  shows "inv_generated (s\<lparr>calls := (calls s)[f := c']\<rparr>)"
  unfolding inv_generated_def
proof (intro allI impI)
  fix g
  assume "g < length (calls (s\<lparr>calls := (calls s)[f := c']\<rparr>))"
    and "generated (calls (s\<lparr>calls := (calls s)[f := c']\<rparr>) ! g)"
  with assms show "request_id (calls (s\<lparr>calls := (calls s)[f := c']\<rparr>) ! g)
      = JStr (str_nat (message_obj (calls (s\<lparr>calls := (calls s)[f := c']\<rparr>) ! g)))"
    by (cases "g = f") (simp_all add: inv_generated_def)
qed

lemma inv_generated_append:
  assumes "inv_generated s" and "generated c \<longrightarrow> request_id c = JStr (str_nat (message_obj c))"
  shows "inv_generated (s\<lparr>calls := calls s @ [c]\<rparr>)"
  using assms by (auto simp: inv_generated_def nth_append less_Suc_eq)

lemma inv_objs_call:
  assumes sys_inv: "inv_objs s" and len: "f < length (calls s)"
    and obj: "message_obj c' = message_obj (calls s ! f)"
    and out: "outcome c' = None \<longrightarrow> outcome (calls s ! f) = None"
  shows "inv_objs (s\<lparr>calls := (calls s)[f := c']\<rparr>)"
  unfolding inv_objs_def
proof (intro allI impI)
  fix g h
  let ?cs = "calls (s\<lparr>calls := (calls s)[f := c']\<rparr>)"
  assume g: "g < length ?cs" and h: "h < length ?cs" and ne: "g \<noteq> h"
    and og: "outcome (?cs ! g) = None" and oh: "outcome (?cs ! h) = None"
  have a: "outcome (calls s ! x) = None \<and> message_obj (?cs ! x) = message_obj (calls s ! x)"
    if "x < length ?cs" and "outcome (?cs ! x) = None" for x
    using that obj out by (cases "x = f") simp_all
  from sys_inv g h ne a [OF g og] a [OF h oh]
  show "message_obj (?cs ! g) \<noteq> message_obj (?cs ! h)"
    unfolding inv_objs_def by simp
qed

lemma inv_outcome_call:
  assumes "inv_outcome s" and "\<forall>r. outcome c' = Some (Inr r) \<longrightarrow> future c' = FResult r"
  shows "inv_outcome (s\<lparr>calls := (calls s)[f := c']\<rparr>)"
  unfolding inv_outcome_def
proof (intro allI impI)
  fix g r
  assume "g < length (calls (s\<lparr>calls := (calls s)[f := c']\<rparr>))"
    and "outcome (calls (s\<lparr>calls := (calls s)[f := c']\<rparr>) ! g) = Some (Inr r)"
  with assms show "future (calls (s\<lparr>calls := (calls s)[f := c']\<rparr>) ! g) = FResult r"
    by (cases "g = f") (simp_all add: inv_outcome_def)
qed

lemma inv_outcome_append:
  assumes "inv_outcome s" and "\<forall>r. outcome c \<noteq> Some (Inr r)"
  shows "inv_outcome (s\<lparr>calls := calls s @ [c]\<rparr>)"
  using assms by (auto simp: inv_outcome_def nth_append less_Suc_eq)

lemma obj_liveD:
  assumes "\<not> obj_live s obj" and "g < length (calls s)" and "outcome (calls s ! g) = None"
  shows "message_obj (calls s ! g) \<noteq> obj"
proof
  assume "message_obj (calls s ! g) = obj"
  with assms(2,3) have "\<exists>c\<in>set (calls s). outcome c = None \<and> message_obj c = obj"
    using nth_mem by blast
  with assms(1) show False by (simp add: obj_live_def list_ex_iff)
qed

lemma inv_objs_append:
  assumes sys_inv: "inv_objs s" and fresh: "\<not> obj_live s (message_obj c)"
  shows "inv_objs (s\<lparr>calls := calls s @ [c]\<rparr>)"
  unfolding inv_objs_def
proof (intro allI impI)
  fix g h
  let ?cs = "calls (s\<lparr>calls := calls s @ [c]\<rparr>)"
  assume g: "g < length ?cs" and h: "h < length ?cs" and ne: "g \<noteq> h"
    and og: "outcome (?cs ! g) = None" and oh: "outcome (?cs ! h) = None"
  show "message_obj (?cs ! g) \<noteq> message_obj (?cs ! h)"
  proof (cases "g < length (calls s)")
    case gl: True
    show ?thesis
    proof (cases "h < length (calls s)")
      case True
      with gl sys_inv ne og oh show ?thesis
        unfolding inv_objs_def by (simp add: nth_append)
    next
      case False
      with h have "h = length (calls s)" by simp
      with gl og obj_liveD [OF fresh gl] show ?thesis by (simp add: nth_append)
    qed
  next
    case False
    with g have ge: "g = length (calls s)" by simp
    with h ne have hl: "h < length (calls s)" by simp
    with ge oh obj_liveD [OF fresh hl] show ?thesis by (simp add: nth_append)
  qed
qed

lemma inv_calls_frame:
  "inv_calls (s\<lparr>sent := snt\<rparr>) = inv_calls s"
  "inv_calls (s\<lparr>warnings := w\<rparr>) = inv_calls s"
  "inv_calls (s\<lparr>handlers := hs\<rparr>) = inv_calls s"
  "inv_calls (s\<lparr>active_connections := ac\<rparr>) = inv_calls s"
  "inv_calls (s\<lparr>unity_connection := uc\<rparr>) = inv_calls s"
  by (simp_all add: inv_calls_def inv_pending_def inv_cancelled_def inv_generated_def
        inv_objs_def inv_outcome_def)

lemma inv_calls_drop:
  assumes "inv_calls s"
  shows "inv_calls (s\<lparr>pending_requests := (pending_requests s)(k := None)\<rparr>)"
  using assms inv_pending_drop [of s k]
  by (simp add: inv_calls_def inv_cancelled_def inv_generated_def inv_objs_def inv_outcome_def)

lemma inv_calls_call:
  assumes sys_inv: "inv_calls s" and len: "f < length (calls s)"
    and fut: "future c' = FPending
       \<or> future c' = FCancelled \<and> deadline (calls s ! f) \<le> now s
       \<or> (\<exists>r. future c' = FResult r) \<and> (\<forall>k. pending_requests s k \<noteq> Some f)"
    and out: "outcome c' = None \<longrightarrow> outcome (calls s ! f) = None"
    and res: "\<forall>r. outcome c' = Some (Inr r) \<longrightarrow> future c' = FResult r"
    and c': "c' = (calls s ! f)\<lparr>future := future c', outcome := outcome c'\<rparr>"
  shows "inv_calls (s\<lparr>calls := (calls s)[f := c']\<rparr>)"
proof -
  have rid: "request_id c' = request_id (calls s ! f)"
    and obj: "message_obj c' = message_obj (calls s ! f)"
    and gen: "generated c' = generated (calls s ! f)"
    and dl: "deadline c' = deadline (calls s ! f)"
    by (subst c', simp)+
  have "inv_pending (s\<lparr>calls := (calls s)[f := c']\<rparr>)"
    using sys_inv fut by (intro inv_pending_call rid) (auto simp: inv_calls_def)
  moreover have "inv_cancelled (s\<lparr>calls := (calls s)[f := c']\<rparr>)"
    using sys_inv fut dl by (intro inv_cancelled_call) (auto simp: inv_calls_def)
  moreover have "inv_generated (s\<lparr>calls := (calls s)[f := c']\<rparr>)"
    using sys_inv by (intro inv_generated_call len rid obj gen) (simp add: inv_calls_def)
  moreover have "inv_objs (s\<lparr>calls := (calls s)[f := c']\<rparr>)"
    using sys_inv by (intro inv_objs_call len obj out) (simp add: inv_calls_def)
  moreover have "inv_outcome (s\<lparr>calls := (calls s)[f := c']\<rparr>)"
    using sys_inv by (intro inv_outcome_call res) (simp add: inv_calls_def)
  ultimately show ?thesis by (simp add: inv_calls_def)
qed

lemma inv_calls_append:
  assumes sys_inv: "inv_calls s" and key: "hash_key (request_id c) = Some k"
    and fut: "future c = FPending"
    and gen: "generated c \<longrightarrow> request_id c = JStr (str_nat (message_obj c))"
    and fresh: "\<not> obj_live s (message_obj c)"
    and res: "\<forall>r. outcome c \<noteq> Some (Inr r)"
  shows "inv_calls (s\<lparr>pending_requests := (pending_requests s)(k \<mapsto> length (calls s)),
            calls := calls s @ [c]\<rparr>)"
proof -
  let ?s1 = "s\<lparr>pending_requests := (pending_requests s)(k \<mapsto> length (calls s))\<rparr>"
  have 1: "inv_cancelled ?s1" "inv_generated ?s1" "inv_objs ?s1" "\<not> obj_live ?s1 (message_obj c)"
    "inv_outcome ?s1"
    using sys_inv fresh
    by (simp_all add: inv_calls_def inv_cancelled_def inv_generated_def inv_objs_def obj_live_def
          inv_outcome_def)
  have "inv_pending (?s1\<lparr>calls := calls s @ [c]\<rparr>)"
    using sys_inv inv_pending_append [OF _ key fut, of s] by (simp add: inv_calls_def)
  moreover have "inv_cancelled (?s1\<lparr>calls := calls s @ [c]\<rparr>)"
    using inv_cancelled_append [OF 1(1) fut] by simp
  moreover have "inv_generated (?s1\<lparr>calls := calls s @ [c]\<rparr>)"
    using inv_generated_append [OF 1(2) gen] by simp
  moreover have "inv_objs (?s1\<lparr>calls := calls s @ [c]\<rparr>)"
    using inv_objs_append [OF 1(3) 1(4)] by simp
  moreover have "inv_outcome (?s1\<lparr>calls := calls s @ [c]\<rparr>)"
    using inv_outcome_append [OF 1(5) res] by simp
  ultimately show ?thesis by (simp add: inv_calls_def)
qed

lemma inv_calls_tick:
  assumes "inv_calls s"
  shows "inv_calls (s\<lparr>now := now s + d\<rparr>)"
  using assms inv_cancelled_tick [of s d]
  by (simp add: inv_calls_def inv_pending_def inv_generated_def inv_objs_def inv_outcome_def)

subsection \<open>The operations of the manager\<close>

lemma inv_calls_timer_fires:
  assumes sys_inv: "inv_calls s"
  shows "inv_calls (timer_fires f s)"
  using timer_fires_cases [of f s]
proof (elim disjE conjE)
  assume "timer_fires f s = s"
  with sys_inv show ?thesis by simp
next
  assume f: "f < length (calls s)" and dl: "deadline (calls s ! f) \<le> now s"
    and out: "outcome (calls s ! f) = None"
    and eq: "timer_fires f s = s\<lparr>calls := (calls s)[f := (calls s ! f)\<lparr>future := FCancelled\<rparr>]\<rparr>"
  show ?thesis
    unfolding eq using dl out by (intro inv_calls_call sys_inv f) simp_all
qed

lemma inv_calls_timeout_handler:
  assumes sys_inv: "inv_calls s"
  shows "inv_calls (timeout_handler f s)"
  using timeout_handler_cases [of f s]
proof (elim disjE conjE exE)
  assume "timeout_handler f s = s"
  with sys_inv show ?thesis by simp
next
  fix k e
  let ?s1 = "s\<lparr>pending_requests := (pending_requests s)(k := None)\<rparr>"
  assume f: "f < length (calls s)" and c: "future (calls s ! f) = FCancelled"
    and eq: "timeout_handler f s = s\<lparr>pending_requests := (pending_requests s)(k := None),
               calls := (calls s)[f := (calls s ! f)\<lparr>outcome := Some (Inl e)\<rparr>]\<rparr>"
  from sys_inv have "inv_cancelled s" by (simp add: inv_calls_def)
  with f c have dl: "deadline (calls s ! f) \<le> now s"
    by (simp add: inv_cancelled_def)
  have "inv_calls (?s1\<lparr>calls := (calls ?s1)[f := (calls ?s1 ! f)\<lparr>outcome := Some (Inl e)\<rparr>]\<rparr>)"
    using f c dl by (intro inv_calls_call inv_calls_drop sys_inv) simp_all
  then show ?thesis
    unfolding eq by simp
qed

lemma inv_calls_response:
  assumes sys_inv: "inv_calls s"
  shows "inv_calls (snd (handle_unity_response r s))"
  using handle_unity_response_cases [of r s]
proof (elim disjE conjE exE)
  assume "snd (handle_unity_response r s) = s"
  with sys_inv show ?thesis by simp
next
  assume eq: "snd (handle_unity_response r s) = s\<lparr>warnings := warnings s @ [dict_get r ''id'']\<rparr>"
  show ?thesis
    unfolding eq using sys_inv by (simp add: inv_calls_frame)
next
  fix k f
  assume "snd (handle_unity_response r s) = s\<lparr>pending_requests := (pending_requests s)(k := None)\<rparr>"
  with sys_inv show ?thesis by (simp add: inv_calls_drop)
next
  fix k f
  let ?s1 = "s\<lparr>pending_requests := (pending_requests s)(k := None)\<rparr>"
  let ?c' = "(calls s ! f)\<lparr>future := FResult r,
     outcome := (case outcome (calls s ! f) of None \<Rightarrow> Some (Inr r) | Some x \<Rightarrow> Some x)\<rparr>"
  assume p: "pending_requests s k = Some f" and pend: "future (calls s ! f) = FPending"
    and eq: "snd (handle_unity_response r s) =
       s\<lparr>pending_requests := (pending_requests s)(k := None), calls := (calls s)[f := ?c']\<rparr>"
  from sys_inv have ip: "inv_pending s" by (simp add: inv_calls_def)
  from sys_inv have "inv_outcome s" by (simp add: inv_calls_def)
  with inv_pendingD(1) [OF ip p] pend have old: "outcome (calls s ! f) \<noteq> Some (Inr x)" for x
    by (auto simp: inv_outcome_def)
  have gone: "pending_requests ?s1 k' \<noteq> Some f" for k'
    using inv_pending_inj [OF ip p, of k'] by auto
  have "inv_calls (?s1\<lparr>calls := (calls ?s1)[f := ?c']\<rparr>)"
  proof (rule inv_calls_call)
    show "inv_calls ?s1" by (rule inv_calls_drop [OF sys_inv])
    show "f < length (calls ?s1)" using inv_pendingD(1) [OF ip p] by simp
    show "future ?c' = FPending
       \<or> future ?c' = FCancelled \<and> deadline (calls ?s1 ! f) \<le> now ?s1
       \<or> (\<exists>r. future ?c' = FResult r) \<and> (\<forall>k. pending_requests ?s1 k \<noteq> Some f)"
      using gone by simp
    show "outcome ?c' = None \<longrightarrow> outcome (calls ?s1 ! f) = None"
      by (simp split: option.splits)
    show "\<forall>x. outcome ?c' = Some (Inr x) \<longrightarrow> future ?c' = FResult x"
      using old by (auto split: option.splits)
    show "?c' = (calls ?s1 ! f)\<lparr>future := future ?c', outcome := outcome ?c'\<rparr>"
      by simp
  qed
  then show ?thesis
    unfolding eq by simp
qed

lemma inv_calls_send_to_unity:
  assumes sys_inv: "inv_calls s" and fresh: "\<not> obj_live s obj"
  shows "inv_calls (snd (snd (send_to_unity msg obj tx s)))"
  using send_to_unity_cases [of msg obj tx s]
proof (elim disjE conjE exE)
  assume "snd (snd (send_to_unity msg obj tx s)) = s"
  with sys_inv show ?thesis by simp
next
  fix k c snt
  assume key: "hash_key (request_id c) = Some k" and fut: "future c = FPending"
    and obj: "message_obj c = obj"
    and res: "\<forall>r. outcome c \<noteq> Some (Inr r)"
    and gen: "generated c \<longrightarrow> request_id c = JStr (str_nat obj)"
    and eq: "snd (snd (send_to_unity msg obj tx s)) =
       s\<lparr>pending_requests := (pending_requests s)(k \<mapsto> length (calls s)),
         calls := calls s @ [c], sent := snt\<rparr>"
  have "inv_calls (s\<lparr>pending_requests := (pending_requests s)(k \<mapsto> length (calls s)),
         calls := calls s @ [c]\<rparr>)"
    using gen fresh obj res by (intro inv_calls_append sys_inv key fut) simp_all
  then show ?thesis
    unfolding eq by (simp add: inv_calls_frame)
qed

subsection \<open>The registry\<close>

lemma inv_connD:
  assumes "inv_conn s"
  shows "distinct (active_connections s)" and "set (active_connections s) = dom (handlers s)"
    and "unity_connection s = Some u \<Longrightarrow>
           \<exists>h. handlers s u = Some h \<and> client_type h = JStr ''unity''"
  using assms by (simp_all add: inv_conn_def)

lemma inv_conn_frame:
  "inv_conn (s\<lparr>sent := snt\<rparr>) = inv_conn s"
  "inv_conn (s\<lparr>warnings := w\<rparr>) = inv_conn s"
  "inv_conn (s\<lparr>calls := cs\<rparr>) = inv_conn s"
  "inv_conn (s\<lparr>pending_requests := p\<rparr>) = inv_conn s"
  "inv_conn (s\<lparr>now := t\<rparr>) = inv_conn s"
  by (simp_all add: inv_conn_def)

lemma inv_conn_timer_fires: "inv_conn (timer_fires f s) = inv_conn s"
  by (simp add: timer_fires_def inv_conn_frame)

lemma inv_conn_timeout_handler: "inv_conn (timeout_handler f s) = inv_conn s"
  by (simp add: timeout_handler_def inv_conn_def split: option.splits)

lemma inv_conn_response: "inv_conn (snd (handle_unity_response r s)) = inv_conn s"
  by (simp add: handle_unity_response_def set_result_def inv_conn_def Let_def split: option.splits)

lemma inv_conn_send_to_unity: "inv_conn (snd (snd (send_to_unity msg obj tx s))) = inv_conn s"
  by (simp add: send_to_unity_def inv_conn_def Let_def split: option.splits)

lemma inv_conn_ws_end:
  assumes "inv_conn s"
  shows "inv_conn (ws_end websocket s)"
proof (cases "websocket \<in> set (active_connections s)")
  case True
  with assms show ?thesis
    by (auto simp: ws_end_def disconnect_def Let_def inv_conn_def)
next
  case False
  with assms have "websocket \<notin> dom (handlers s)"
    by (simp add: inv_conn_def)
  with assms False show ?thesis
    by (auto simp: ws_end_def disconnect_def Let_def inv_conn_def)
qed

lemma inv_conn_ws_open:
  assumes "inv_conn s"
  shows "inv_conn (ws_open websocket first_message acc s)"
proof (cases "handlers s websocket")
  case (Some h)
  with assms show ?thesis by (simp add: ws_open_def)
next
  case None
  with assms have fresh: "websocket \<notin> set (active_connections s)"
    by (auto simp: inv_conn_def)
  note e = inv_conn_ws_end [OF assms, of websocket]
  show ?thesis
  proof (cases "\<exists>d. first_message = JObj d \<and> acc = None")
    case True
    then obtain d where fm: "first_message = JObj d" and acc: "acc = None" by blast
    show ?thesis
    proof (cases "dict_get_default d ''client_type'' (JStr ''unknown'') = JStr ''unity''")
      case True
      with assms None fresh fm acc show ?thesis
        by (auto simp: ws_open_def connect_def Let_def inv_conn_def)
    next
      case False
      with assms None fresh fm acc show ?thesis
        by (auto simp: ws_open_def connect_def Let_def inv_conn_def)
    qed
  next
    case False
    with None e show ?thesis
      by (cases first_message; cases acc) (simp_all add: ws_open_def connect_def Let_def)
  qed
qed

lemma inv_conn_hstate:
  assumes "inv_conn s" and "handlers s websocket = Some h"
  shows "inv_conn (s\<lparr>handlers := (handlers s)(websocket \<mapsto> h\<lparr>hstate := x\<rparr>)\<rparr>)"
  using assms by (auto simp: inv_conn_def)

subsection \<open>Steps and runs\<close>

lemma inv_init: "sys_inv init_sys"
  by (simp add: sys_inv_def inv_calls_def inv_pending_def inv_cancelled_def inv_generated_def
        inv_objs_def inv_outcome_def inv_conn_def init_sys_def)

lemma inv_send_to_unity:
  assumes "sys_inv s" and "\<not> obj_live s obj"
  shows "sys_inv (snd (snd (send_to_unity msg obj tx s)))"
  using assms by (simp add: sys_inv_def inv_calls_send_to_unity inv_conn_send_to_unity)

lemma inv_calls_ws_end: "inv_calls (ws_end websocket s) = inv_calls s"
  by (simp add: ws_end_def disconnect_def Let_def inv_calls_frame)

lemma inv_calls_ws_open: "inv_calls (ws_open websocket first_message acc s) = inv_calls s"
  by (cases first_message; cases acc)
     (simp_all add: ws_open_def connect_def Let_def inv_calls_frame inv_calls_ws_end)

lemma inv_ws_open: "sys_inv s \<Longrightarrow> sys_inv (ws_open websocket first_message acc s)"
  by (simp add: sys_inv_def inv_calls_ws_open inv_conn_ws_open)

lemma inv_ws_end: "sys_inv s \<Longrightarrow> sys_inv (ws_end websocket s)"
  by (simp add: sys_inv_def inv_calls_ws_end inv_conn_ws_end)

lemma inv_response: "sys_inv s \<Longrightarrow> sys_inv (snd (handle_unity_response r s))"
  by (simp add: sys_inv_def inv_calls_response inv_conn_response)

lemma inv_ws_unity_message:
  assumes "sys_inv s"
  shows "sys_inv (ws_unity_message websocket frame s)"
proof (cases "\<exists>msg. frame = JObj msg")
  case False
  with assms show ?thesis
    by (cases frame) (simp_all add: ws_unity_message_def inv_ws_end)
next
  case True
  then obtain msg where frame: "frame = JObj msg" by blast
  show ?thesis
  proof (cases "handle_unity_response msg s")
    case (Pair x s')
    with inv_response [OF assms, of msg] have "sys_inv s'" by simp
    with Pair frame show ?thesis
      by (cases x) (simp_all add: ws_unity_message_def inv_ws_end)
  qed
qed

lemma inv_ws_client_message:
  assumes sys_inv: "sys_inv s" and h: "handlers s websocket = Some h" and fresh: "\<not> obj_live s obj"
  shows "sys_inv (ws_client_message rt websocket h msg obj tx s)"
proof (cases "truthy (dict_get msg ''function'')")
  case False
  with sys_inv show ?thesis
    by (simp add: ws_client_message_def sys_inv_def inv_calls_frame inv_conn_frame)
next
  case True
  obtain r msg' s' where st: "send_to_unity msg obj tx s = (r, msg', s')"
    by (cases "send_to_unity msg obj tx s") auto
  with inv_send_to_unity [OF sys_inv fresh, of msg tx] handlers_send_to_unity [of msg obj tx s]
  have s': "sys_inv s'" "handlers s' = handlers s" by simp_all
  show ?thesis
  proof (cases r)
    case (Inl e)
    with True st s' show ?thesis
      by (simp add: ws_client_message_def sys_inv_def inv_calls_frame inv_conn_frame)
  next
    case (Inr f)
    from s' h have "inv_conn (s'\<lparr>handlers := (handlers s')(websocket \<mapsto> h\<lparr>hstate := Forwarding f\<rparr>)\<rparr>)"
      by (intro inv_conn_hstate) (simp_all add: sys_inv_def)
    with Inr True st s' show ?thesis
      by (simp add: ws_client_message_def sys_inv_def inv_calls_frame)
  qed
qed

lemma inv_ws_receive:
  assumes "sys_inv s" and "\<not> obj_live s obj"
  shows "sys_inv (ws_receive rt websocket frame obj tx s)"
  using assms
  by (simp add: ws_receive_def inv_ws_unity_message inv_ws_client_message inv_ws_end
        split: option.splits json.splits)

lemma inv_ws_resume:
  assumes "sys_inv s"
  shows "sys_inv (ws_resume rt websocket s)"
proof (cases "ws_resume rt websocket s = s")
  case True
  with assms show ?thesis by simp
next
  case False
  then obtain h f r where h: "handlers s websocket = Some h"
    and eq: "ws_resume rt websocket s =
       s\<lparr>sent := sent s @ [(websocket, case r of Inr response \<Rightarrow> response
              | Inl e \<Rightarrow> error_reply rt (request_message (calls s ! f)) e)],
         handlers := (handlers s)(websocket \<mapsto> h\<lparr>hstate := Receiving\<rparr>)\<rparr>"
    by (auto simp: ws_resume_def split: option.splits hstate.splits if_splits)
  from assms h have "inv_conn (s\<lparr>handlers := (handlers s)(websocket \<mapsto> h\<lparr>hstate := Receiving\<rparr>)\<rparr>)"
    by (intro inv_conn_hstate) (simp_all add: sys_inv_def)
  with assms show ?thesis
    unfolding eq by (simp add: sys_inv_def inv_calls_frame inv_conn_def)
qed

lemma inv_ws_disconnect: "sys_inv s \<Longrightarrow> sys_inv (ws_disconnect websocket s)"
  by (simp add: ws_disconnect_def inv_ws_end split: option.splits)

lemma inv_timer_fires: "sys_inv s \<Longrightarrow> sys_inv (timer_fires f s)"
  by (simp add: sys_inv_def inv_calls_timer_fires inv_conn_timer_fires)

lemma inv_timeout_handler: "sys_inv s \<Longrightarrow> sys_inv (timeout_handler f s)"
  by (simp add: sys_inv_def inv_calls_timeout_handler inv_conn_timeout_handler)

lemma inv_step: "sys_inv s \<Longrightarrow> sys_inv (step rt e s)"
proof (cases e)
  case (Tick d)
  assume "sys_inv s"
  with Tick show ?thesis
    by (simp add: sys_inv_def inv_calls_tick inv_conn_frame)
qed (simp_all add: inv_ws_open inv_ws_receive inv_ws_resume inv_ws_disconnect
       inv_send_to_unity inv_timer_fires inv_timeout_handler route_call_def)

lemma inv_run: "sys_inv s \<Longrightarrow> sys_inv (run rt es s)"
  by (induction es arbitrary: s) (simp_all add: inv_step)

lemma inv_reachable: "sys_inv (run rt es init_sys)"
  by (rule inv_run [OF inv_init])

subsection \<open>The client type of a handler is the one its first frame declared\<close>

lemma handlers_step:
  assumes "handlers (step rt e s) w = Some h'"
  shows "(\<exists>h. handlers s w = Some h \<and> client_type h = client_type h')
       \<or> (\<exists>d. e = WsOpen w (JObj d) None
            \<and> client_type h' = dict_get_default d ''client_type'' (JStr ''unknown''))"
proof (cases e)
  case (WsOpen w' first acc)
  with assms handlers_ws_open [of w' first acc s w h'] show ?thesis by auto
next
  case (WsReceive w' frame obj tx)
  with assms handlers_ws_receive [of rt w' frame obj tx s w h'] show ?thesis
    by (auto split: if_splits)
next
  case (WsResume w')
  with assms show ?thesis
    by (auto simp: ws_resume_def split: option.splits hstate.splits if_splits)
next
  case (WsDisconnect w')
  with assms show ?thesis
    by (auto simp: ws_disconnect_def handlers_ws_end split: option.splits if_splits)
next
  case (RouteCall fname params obj tx)
  with assms show ?thesis
    by (auto simp: route_call_def handlers_send_to_unity split: if_splits)
next
  case (TimerFires f)
  with assms show ?thesis by (simp add: handlers_timer_fires)
next
  case (TimeoutHandler f)
  with assms show ?thesis by (simp add: handlers_timeout_handler)
next
  case (Tick d)
  with assms show ?thesis by simp
qed

lemma handler_declared_type:
  assumes "handlers (run rt es init_sys) w = Some h"
  shows "\<exists>d. WsOpen w (JObj d) None \<in> set es
     \<and> client_type h = dict_get_default d ''client_type'' (JStr ''unknown'')"
  using assms
proof (induction es arbitrary: h rule: rev_induct)
  case Nil
  then show ?case by (simp add: init_sys_def)
next
  case (snoc e es)
  from snoc.prems have "handlers (step rt e (run rt es init_sys)) w = Some h"
    by (simp add: run_snoc)
  from handlers_step [OF this] show ?case
  proof
    assume "\<exists>h0. handlers (run rt es init_sys) w = Some h0 \<and> client_type h0 = client_type h"
    then obtain h0 where "handlers (run rt es init_sys) w = Some h0"
      and "client_type h0 = client_type h" by blast
    with snoc.IH [of h0] show ?thesis by auto
  next
    assume "\<exists>d. e = WsOpen w (JObj d) None
       \<and> client_type h = dict_get_default d ''client_type'' (JStr ''unknown'')"
    then show ?thesis by auto
  qed
qed

subsection \<open>A future that has left the pending map\<close>

lemma quiet_refl: "detached s f \<Longrightarrow> quiet s s f"
  by (simp add: quiet_def)

lemma quiet_frame:
  "quiet s (s'\<lparr>sent := snt\<rparr>) f = quiet s s' f"
  "quiet s (s'\<lparr>warnings := w\<rparr>) f = quiet s s' f"
  "quiet s (s'\<lparr>handlers := hs\<rparr>) f = quiet s s' f"
  "quiet s (s'\<lparr>active_connections := ac\<rparr>) f = quiet s s' f"
  "quiet s (s'\<lparr>unity_connection := uc\<rparr>) f = quiet s s' f"
  "quiet s (s'\<lparr>now := t\<rparr>) f = quiet s s' f"
  by (simp_all add: quiet_def detached_def)

lemma quiet_timer_fires:
  assumes "detached s f"
  shows "quiet s (timer_fires g s) f"
  using timer_fires_cases [of g s]
proof (elim disjE conjE)
  assume "timer_fires g s = s"
  with assms show ?thesis by (simp add: quiet_refl)
next
  assume eq: "timer_fires g s = s\<lparr>calls := (calls s)[g := (calls s ! g)\<lparr>future := FCancelled\<rparr>]\<rparr>"
  from assms show ?thesis
    unfolding eq by (cases "g = f") (simp_all add: quiet_def detached_def)
qed

lemma detached_timeout_handler:
  assumes "detached s f"
  shows "detached (timeout_handler g s) f
     \<and> request_id (calls (timeout_handler g s) ! f) = request_id (calls s ! f)
     \<and> (outcome (calls (timeout_handler g s) ! f) = outcome (calls s ! f)
        \<or> g = f \<and> outcome (calls (timeout_handler g s) ! f) \<in>
             {Some (Inl (PyException ''Request to Unity timed out'')),
              Some (Inl (KeyError (request_id (calls s ! f))))})"
  using timeout_handler_cases [of g s]
proof (elim disjE conjE exE)
  assume "timeout_handler g s = s"
  with assms show ?thesis by simp
next
  fix k e
  assume e: "e \<in> {PyException ''Request to Unity timed out'', KeyError (request_id (calls s ! g))}"
    and eq: "timeout_handler g s = s\<lparr>pending_requests := (pending_requests s)(k := None),
               calls := (calls s)[g := (calls s ! g)\<lparr>outcome := Some (Inl e)\<rparr>]\<rparr>"
  from assms e show ?thesis
    unfolding eq by (cases "g = f") (auto simp: detached_def)
qed

lemma quiet_response:
  assumes "detached s f"
  shows "quiet s (snd (handle_unity_response r s)) f"
  using handle_unity_response_cases [of r s]
proof (elim disjE conjE exE)
  assume "snd (handle_unity_response r s) = s"
  with assms show ?thesis by (simp add: quiet_refl)
next
  assume "snd (handle_unity_response r s) = s\<lparr>warnings := warnings s @ [dict_get r ''id'']\<rparr>"
  with assms show ?thesis by (simp add: quiet_frame quiet_refl)
next
  fix k g
  assume "snd (handle_unity_response r s) = s\<lparr>pending_requests := (pending_requests s)(k := None)\<rparr>"
  with assms show ?thesis by (simp add: quiet_def detached_def)
next
  fix k g
  assume p: "pending_requests s k = Some g"
    and eq: "snd (handle_unity_response r s) =
       s\<lparr>pending_requests := (pending_requests s)(k := None),
         calls := (calls s)[g := (calls s ! g)\<lparr>future := FResult r,
           outcome := (case outcome (calls s ! g) of None \<Rightarrow> Some (Inr r) | Some x \<Rightarrow> Some x)\<rparr>]\<rparr>"
  from assms p have "g \<noteq> f" by (auto simp: detached_def)
  with assms show ?thesis
    unfolding eq by (simp add: quiet_def detached_def)
qed

lemma quiet_send_to_unity:
  assumes "detached s f"
  shows "quiet s (snd (snd (send_to_unity msg obj tx s))) f"
  using send_to_unity_cases [of msg obj tx s]
proof (elim disjE conjE exE)
  assume "snd (snd (send_to_unity msg obj tx s)) = s"
  with assms show ?thesis by (simp add: quiet_refl)
next
  fix k c snt
  assume eq: "snd (snd (send_to_unity msg obj tx s)) =
       s\<lparr>pending_requests := (pending_requests s)(k \<mapsto> length (calls s)),
         calls := calls s @ [c], sent := snt\<rparr>"
  from assms show ?thesis
    unfolding eq by (auto simp: quiet_def detached_def nth_append)
qed

lemma quiet_ws_end: "detached s f \<Longrightarrow> quiet s (ws_end w s) f"
  by (simp add: ws_end_def disconnect_def Let_def quiet_frame quiet_refl)

lemma quiet_trans:
  assumes "quiet s s1 f" and "quiet s1 s2 f"
  shows "quiet s s2 f"
  using assms by (simp add: quiet_def)

lemma quiet_ws_unity_message:
  assumes "detached s f"
  shows "quiet s (ws_unity_message w frame s) f"
proof (cases "\<exists>msg. frame = JObj msg")
  case True
  then obtain msg where frame: "frame = JObj msg" by blast
  show ?thesis
  proof (cases "handle_unity_response msg s")
    case (Pair x s')
    with quiet_response [OF assms, of msg] have q: "quiet s s' f" by simp
    then have "detached s' f" by (simp add: quiet_def)
    then have "quiet s' (ws_end w s') f" by (rule quiet_ws_end)
    with q have "quiet s (ws_end w s') f" by (rule quiet_trans)
    with q Pair frame show ?thesis
      by (cases x) (simp_all add: ws_unity_message_def)
  qed
next
  case False
  then have "ws_unity_message w frame s = ws_end w s"
    by (cases frame) (simp_all add: ws_unity_message_def)
  with assms show ?thesis by (simp add: quiet_ws_end)
qed

lemma quiet_ws_client_message:
  assumes "detached s f"
  shows "quiet s (ws_client_message rt w h msg obj tx s) f"
proof (cases "send_to_unity msg obj tx s")
  case (fields r msg' s')
  with quiet_send_to_unity [OF assms, of msg obj tx] have "quiet s s' f" by simp
  with fields assms show ?thesis
    by (cases r) (simp_all add: ws_client_message_def quiet_frame quiet_refl)
qed

lemma quiet_ws_open:
  assumes "detached s f"
  shows "quiet s (ws_open w first acc s) f"
proof (cases "handlers s w = None \<and> (\<exists>d. first = JObj d) \<and> acc = None")
  case True
  then obtain d where "first = JObj d" and "acc = None" and "handlers s w = None" by blast
  with assms show ?thesis
    by (simp add: ws_open_def connect_def Let_def quiet_frame quiet_refl)
next
  case False
  then have "ws_open w first acc s = s \<or> ws_open w first acc s = ws_end w s"
    by (cases first; cases acc) (auto simp: ws_open_def connect_def)
  with assms show ?thesis
    by (auto simp: quiet_ws_end quiet_refl)
qed

lemma quiet_ws_receive:
  assumes "detached s f"
  shows "quiet s (ws_receive rt w frame obj tx s) f"
proof (cases "\<exists>msg. frame = JObj msg")
  case True
  then obtain msg where "frame = JObj msg" by blast
  with assms show ?thesis
    by (simp add: ws_receive_def quiet_refl quiet_ws_unity_message quiet_ws_client_message
          split: option.splits)
next
  case False
  with assms show ?thesis
    by (cases frame)
       (simp_all add: ws_receive_def quiet_refl quiet_ws_unity_message quiet_ws_end
          split: option.splits)
qed

lemma detached_step:
  assumes "detached s f"
  shows "detached (step rt e s) f
     \<and> request_id (calls (step rt e s) ! f) = request_id (calls s ! f)
     \<and> (outcome (calls (step rt e s) ! f) = outcome (calls s ! f)
        \<or> e = TimeoutHandler f \<and> outcome (calls (step rt e s) ! f) \<in>
             {Some (Inl (PyException ''Request to Unity timed out'')),
              Some (Inl (KeyError (request_id (calls s ! f))))})"
proof (cases e)
  case (TimeoutHandler g)
  with detached_timeout_handler [OF assms, of g] show ?thesis by auto
next
  case (WsOpen w first acc)
  with quiet_ws_open [OF assms, of w first acc] show ?thesis by (simp add: quiet_def)
next
  case (WsReceive w frame obj tx)
  with quiet_ws_receive [OF assms, of rt w frame obj tx] assms show ?thesis
    by (simp add: quiet_def)
next
  case (WsResume w)
  from assms have "quiet s (ws_resume rt w s) f"
    by (simp add: ws_resume_def quiet_refl quiet_frame split: option.splits hstate.splits)
  with WsResume show ?thesis by (simp add: quiet_def)
next
  case (WsDisconnect w)
  from assms have "quiet s (ws_disconnect w s) f"
    by (simp add: ws_disconnect_def quiet_refl quiet_ws_end split: option.splits)
  with WsDisconnect show ?thesis by (simp add: quiet_def)
next
  case (RouteCall fname params obj tx)
  from assms have "quiet s (snd (snd (route_call fname params obj tx s))) f"
    by (simp add: route_call_def quiet_send_to_unity)
  with RouteCall assms show ?thesis by (simp add: quiet_def)
next
  case (TimerFires g)
  with quiet_timer_fires [OF assms, of g] show ?thesis by (simp add: quiet_def)
next
  case (Tick d)
  from assms have "quiet s (s\<lparr>now := now s + d\<rparr>) f"
    by (simp add: quiet_frame quiet_refl)
  with Tick show ?thesis by (simp add: quiet_def)
qed

lemma detached_run:
  assumes "detached s f"
  shows "detached (run rt es s) f
     \<and> request_id (calls (run rt es s) ! f) = request_id (calls s ! f)
     \<and> (outcome (calls (run rt es s) ! f) = outcome (calls s ! f)
        \<or> TimeoutHandler f \<in> set es \<and> outcome (calls (run rt es s) ! f) \<in>
             {Some (Inl (PyException ''Request to Unity timed out'')),
              Some (Inl (KeyError (request_id (calls s ! f))))})"
  using assms
proof (induction es arbitrary: s)
  case Nil
  then show ?case by simp
next
  case (Cons e es)
  note st = detached_step [OF Cons.prems, of rt e]
  then have d1: "detached (step rt e s) f" by simp
  from Cons.IH [OF d1] st show ?case by auto
qed

subsection \<open>Decimal strings\<close>

lemma digit_char_inj:
  assumes "a < 10" and "b < 10" and "digit_char a = digit_char b"
  shows "a = b"
proof -
  from assms(3) have "of_char (digit_char a) = (of_char (digit_char b) :: nat)"
    by simp
  then have "(48 + a) mod 256 = (48 + b) mod 256"
    by (simp add: digit_char_def)
  with assms(1,2) show ?thesis
    by simp
qed

lemma str_nat_nonempty: "str_nat n \<noteq> []"
  by (subst str_nat.simps) simp

lemma str_nat_small: "n < 10 \<Longrightarrow> str_nat n = [digit_char n]"
  by (subst str_nat.simps) simp

lemma str_nat_large:
  "\<not> n < 10 \<Longrightarrow> str_nat n = str_nat (n div 10) @ [digit_char (n mod 10)]"
  by (subst str_nat.simps) simp

lemma str_nat_inj: "str_nat n = str_nat m \<Longrightarrow> n = m"
proof (induction n arbitrary: m rule: str_nat.induct)
  case (1 n)
  show ?case
  proof (cases "n < 10")
    case n: True
    show ?thesis
    proof (cases "m < 10")
      case True
      with n "1.prems" show ?thesis
        by (simp add: str_nat_small digit_char_inj)
    next
      case False
      with n "1.prems" str_nat_nonempty [of "m div 10"] show ?thesis
        by (simp add: str_nat_small str_nat_large Cons_eq_append_conv)
    qed
  next
    case n: False
    show ?thesis
    proof (cases "m < 10")
      case True
      with n "1.prems" str_nat_nonempty [of "n div 10"] show ?thesis
        by (simp add: str_nat_small str_nat_large append_eq_Cons_conv)
    next
      case False
      with n "1.prems" have "str_nat (n div 10) = str_nat (m div 10)"
        and d: "digit_char (n mod 10) = digit_char (m mod 10)"
        by (simp_all add: str_nat_large)
      with "1.IH" n have "n div 10 = m div 10" by simp
      moreover from d have "n mod 10 = m mod 10"
        by (intro digit_char_inj) simp_all
      ultimately show ?thesis
        by (metis div_mult_mod_eq)
    qed
  qed
qed

subsection \<open>The example runs, evaluated\<close>

lemma two_clients_fields:
  "active_connections two_clients = [0, 1, 2]"
  "unity_connection two_clients = Some 0"
  "handlers two_clients 0 = Some \<lparr>client_type = JStr ''unity'', hstate = Receiving\<rparr>"
  "handlers two_clients 1 = Some \<lparr>client_type = JStr ''mcp_client'', hstate = Receiving\<rparr>"
  "handlers two_clients 2 = Some \<lparr>client_type = JStr ''unknown'', hstate = Receiving\<rparr>"
  "sent two_clients = []"
  "calls two_clients = []"
  by (simp_all add: two_clients_def model_defs)

lemma one_pending_fields:
  "active_connections one_pending = [0, 1]"
  "unity_connection one_pending = Some 0"
  "pending_requests one_pending = [KStr ''r1'' \<mapsto> 0]"
  "calls one_pending = [\<lparr>request_id = JStr ''r1'',
      request_message = [(''id'', JStr ''r1''), (''function'', JStr ''ping''), (''params'', JObj [])],
      message_obj = 7, generated = False, deadline = 30, future = FPending, outcome = None\<rparr>]"
  "now one_pending = 29"
  "sent one_pending = [(0, [(''id'', JStr ''r1''), (''function'', JStr ''ping''), (''params'', JObj [])])]"
  "warnings one_pending = []"
  by (simp_all add: one_pending_def model_defs)

lemma one_pending_handlers:
  "handlers one_pending 1 = Some \<lparr>client_type = JStr ''mcp_client'', hstate = Forwarding 0\<rparr>"
  "handlers one_pending 0 = Some \<lparr>client_type = JStr ''unity'', hstate = Receiving\<rparr>"
  by (simp_all add: one_pending_def model_defs)

lemma two_pending_fields:
  "pending_requests two_pending = [KStr ''r1'' \<mapsto> 0, KStr ''r2'' \<mapsto> 1]"
  "calls two_pending =
     [\<lparr>request_id = JStr ''r1'',
       request_message = [(''id'', JStr ''r1''), (''function'', JStr ''ping'')],
       message_obj = 7, generated = False, deadline = 30, future = FPending, outcome = None\<rparr>,
      \<lparr>request_id = JStr ''r2'',
       request_message = [(''id'', JStr ''r2''), (''function'', JStr ''ping'')],
       message_obj = 8, generated = False, deadline = 30, future = FPending, outcome = None\<rparr>]"
  by (simp_all add: two_pending_def model_defs)

lemma two_routes_calls:
  "length (calls two_routes) = 2"
  "outcome (calls two_routes ! 0) = None" "outcome (calls two_routes ! 1) = None"
  "generated (calls two_routes ! 0)" "generated (calls two_routes ! 1)"
  "message_obj (calls two_routes ! 0) = 7" "message_obj (calls two_routes ! 1) = 8"
  by (simp_all add: two_routes_def model_defs)

lemma superseded_fields:
  "active_connections superseded = [0, 1, 2]"
  "unity_connection superseded = Some 1"
  "handlers superseded 0 = Some \<lparr>client_type = JStr ''unity'', hstate = Receiving\<rparr>"
  "handlers superseded 1 = Some \<lparr>client_type = JStr ''unity'', hstate = Receiving\<rparr>"
  "pending_requests superseded = [KStr ''r1'' \<mapsto> 0]"
  "calls superseded = [\<lparr>request_id = JStr ''r1'',
      request_message = [(''id'', JStr ''r1''), (''function'', JStr ''ping'')],
      message_obj = 7, generated = False, deadline = 30, future = FPending, outcome = None\<rparr>]"
  "sent superseded = [(1, [(''id'', JStr ''r1''), (''function'', JStr ''ping'')])]"
  "warnings superseded = []"
  "now superseded = 0"
  by (simp_all add: superseded_def model_defs)

lemma refused_handshakes_eq: "refused_handshakes = init_sys"
  by (simp add: refused_handshakes_def model_defs)

section \<open>A response that arrives in time\<close>

text \<open>
  C1. A pending request is an entry of \<^verbatim>\<open>pending_requests\<close>: a key \<open>k\<close> and the future
  \<open>f\<close> registered under it. In every run, if \<^verbatim>\<open>handle_unity_response\<close> is given, before
  the deadline of that request, a response whose \<^verbatim>\<open>id\<close> is the key, then it raises
  nothing, the future holds exactly that response and the call that waits for it returns
  it, the key leaves the map in the same step, and a second delivery of the response
  changes nothing but the log, which gets the warning for an unknown identifier.
\<close>

theorem matching_response_resolves:
  assumes "s = run rt es init_sys"
    and "pending_requests s k = Some f"
    and "now s < deadline (calls s ! f)"
    and "hash_key (dict_get response ''id'') = Some k"
    and "handle_unity_response response s = (x, s')"
  shows "x = None \<and> future (calls s' ! f) = FResult response
     \<and> (outcome (calls s ! f) = None \<longrightarrow> outcome (calls s' ! f) = Some (Inr response))
     \<and> pending_requests s' = (pending_requests s)(k := None)
     \<and> handle_unity_response response s' =
          (None, s'\<lparr>warnings := warnings s' @ [dict_get response ''id'']\<rparr>)"
proof -
  from assms(1) have "sys_inv s" by (simp add: inv_reachable)
  then have ip: "inv_pending s" and ic: "inv_cancelled s"
    by (simp_all add: sys_inv_def inv_calls_def)
  note D = inv_pendingD [OF ip assms(2)]
  from ic D(1) assms(3) have "future (calls s ! f) \<noteq> FCancelled"
    by (auto simp: inv_cancelled_def)
  with D(3) have pend: "future (calls s ! f) = FPending" by simp
  from assms(5) have s': "s' = snd (handle_unity_response response s)"
    and x: "x = fst (handle_unity_response response s)" by simp_all
  from assms(2,4) pend D(1) show ?thesis
    unfolding s' x by (simp add: handle_unity_response_def set_result_def Let_def)
qed

theorem matching_response_resolves_witness:
  "pending_requests one_pending (KStr ''r1'') = Some 0
   \<and> now one_pending < deadline (calls one_pending ! 0)
   \<and> hash_key (dict_get [(''id'', JStr ''r1''), (''success'', JBool True)] ''id'') = Some (KStr ''r1'')
   \<and> fst (handle_unity_response [(''id'', JStr ''r1''), (''success'', JBool True)] one_pending) = None
   \<and> outcome (calls (snd (handle_unity_response
          [(''id'', JStr ''r1''), (''success'', JBool True)] one_pending)) ! 0)
       = Some (Inr [(''id'', JStr ''r1''), (''success'', JBool True)])
   \<and> pending_requests (snd (handle_unity_response
          [(''id'', JStr ''r1''), (''success'', JBool True)] one_pending)) (KStr ''r1'') = None"
proof -
  have h2: "pending_requests one_pending (KStr ''r1'') = Some 0"
    by (simp add: one_pending_fields)
  have h3: "now one_pending < deadline (calls one_pending ! 0)"
    by (simp add: one_pending_fields)
  have h4: "hash_key (dict_get [(''id'', JStr ''r1''), (''success'', JBool True)] ''id'')
      = Some (KStr ''r1'')"
    by (simp add: dict_get_def)
  have h6: "outcome (calls one_pending ! 0) = None"
    by (simp add: one_pending_fields)
  show ?thesis
    using h2 h3 h4 h6
      matching_response_resolves [OF one_pending_def h2 h3 h4 surjective_pairing]
    by simp
qed

section \<open>A request that times out\<close>

text \<open>
  When the timeout handler of a call finds its key in \<^verbatim>\<open>pending_requests\<close>, the entry is
  deleted and the call raises \<^verbatim>\<open>Exception("Request to Unity timed out")\<close>.
\<close>

lemma timeout_handler_present:
  assumes "f < length (calls s)" and "outcome (calls s ! f) = None"
    and "future (calls s ! f) = FCancelled"
    and "hash_key (request_id (calls s ! f)) = Some k" and "pending_requests s k = Some g"
  shows "timeout_handler f s =
           s\<lparr>pending_requests := (pending_requests s)(k := None),
             calls := (calls s)[f := (calls s ! f)
               \<lparr>outcome := Some (Inl (PyException ''Request to Unity timed out''))\<rparr>]\<rparr>"
  using assms by (simp add: timeout_handler_def)

text \<open>
  C2. Not every request that gets no response within the 30 time units ends with the
  timeout failure. In the first run clients 1 and 2 each send a request with the
  identifier \<^verbatim>\<open>"r1"\<close>; the second entry replaces the first in \<^verbatim>\<open>pending_requests\<close>, and
  the executor never answers. At instant 30 the first call times out: its \<^verbatim>\<open>del\<close>
  removes the entry (the second call's) and it raises the timeout failure. Then the
  second call times out: the key is gone, \<^verbatim>\<open>del\<close> raises \<^verbatim>\<open>KeyError("r1")\<close>, and that is
  what the second caller gets. In the second run a single request \<^verbatim>\<open>"r2"\<close> times out,
  and the response arrives between the cancellation of the future and the \<^verbatim>\<open>except\<close>
  branch: \<^verbatim>\<open>handle_unity_response\<close> pops the entry and, the future being done, sets no
  result; the \<^verbatim>\<open>del\<close> then raises \<^verbatim>\<open>KeyError("r2")\<close>. In both runs the identifier is
  absent from the map afterwards.
\<close>

theorem timeout_raises_keyerror:
  "outcome (calls duplicate_ids ! 0) = Some (Inl (PyException ''Request to Unity timed out''))
   \<and> outcome (calls duplicate_ids ! 1) = Some (Inl (KeyError (JStr ''r1'')))
   \<and> future (calls duplicate_ids ! 1) = FCancelled
   \<and> deadline (calls duplicate_ids ! 1) = 30 \<and> now duplicate_ids = 30
   \<and> warnings duplicate_ids = []
   \<and> pending_requests duplicate_ids (KStr ''r1'') = None
   \<and> length (calls late_reply) = 1
   \<and> outcome (calls late_reply ! 0) = Some (Inl (KeyError (JStr ''r2'')))
   \<and> future (calls late_reply ! 0) = FCancelled
   \<and> deadline (calls late_reply ! 0) = 30 \<and> now late_reply = 30
   \<and> pending_requests late_reply (KStr ''r2'') = None"
  by (simp add: duplicate_ids_def late_reply_def model_defs)

section \<open>Submitting without an executor\<close>

text \<open>
  C3. A call of \<^verbatim>\<open>send_to_unity\<close> made while no executor channel is registered raises
  \<^verbatim>\<open>Exception("No Unity connection available")\<close> at once: the whole state is unchanged,
  so no frame is written on any channel, \<^verbatim>\<open>pending_requests\<close> gets no entry and no
  future is created; the message is not touched either.
\<close>

theorem send_to_unity_no_executor:
  assumes "unity_connection s = None"
  shows "send_to_unity msg obj tx s =
           (Inl (PyException ''No Unity connection available''), msg, s)
         \<and> sent (snd (snd (send_to_unity msg obj tx s))) = sent s
         \<and> pending_requests (snd (snd (send_to_unity msg obj tx s))) = pending_requests s
         \<and> calls (snd (snd (send_to_unity msg obj tx s))) = calls s"
  using assms by (simp add: send_to_unity_def)

theorem send_to_unity_no_executor_witness:
  "unity_connection init_sys = None
   \<and> send_to_unity [(''function'', JStr ''ping'')] 7 None init_sys =
       (Inl (PyException ''No Unity connection available''),
        [(''function'', JStr ''ping'')], init_sys)"
proof -
  have h: "unity_connection init_sys = None"
    by (simp add: init_sys_def)
  show ?thesis
    using h send_to_unity_no_executor [OF h, of "[(''function'', JStr ''ping'')]" 7 None]
    by simp
qed

section \<open>Generated identifiers\<close>

text \<open>
  C4. In every run, two different calls that are both still suspended and whose
  messages carried no \<^verbatim>\<open>id\<close> have different generated identifiers, and different keys
  in \<^verbatim>\<open>pending_requests\<close>. The identifier is \<^verbatim>\<open>str(id(message))\<close>; the two messages are
  alive together, so their identities differ, and the decimal string of a number
  determines the number.
\<close>

theorem generated_ids_distinct:
  assumes "s = run rt es init_sys"
    and "f < length (calls s)" and "g < length (calls s)" and "f \<noteq> g"
    and "outcome (calls s ! f) = None" and "outcome (calls s ! g) = None"
    and "generated (calls s ! f)" and "generated (calls s ! g)"
  shows "request_id (calls s ! f) \<noteq> request_id (calls s ! g)
       \<and> hash_key (request_id (calls s ! f)) \<noteq> hash_key (request_id (calls s ! g))"
proof -
  from assms(1) have "sys_inv s" by (simp add: inv_reachable)
  then have gen: "inv_generated s" and objs: "inv_objs s"
    by (simp_all add: sys_inv_def inv_calls_def)
  from gen assms(2,3,7,8)
  have f: "request_id (calls s ! f) = JStr (str_nat (message_obj (calls s ! f)))"
    and g: "request_id (calls s ! g) = JStr (str_nat (message_obj (calls s ! g)))"
    by (simp_all add: inv_generated_def)
  from objs assms(2-6) have "message_obj (calls s ! f) \<noteq> message_obj (calls s ! g)"
    by (simp add: inv_objs_def)
  with f g show ?thesis
    by (auto dest: str_nat_inj)
qed

theorem generated_ids_distinct_witness:
  "0 < length (calls two_routes) \<and> 1 < length (calls two_routes) \<and> (0::nat) \<noteq> 1
   \<and> outcome (calls two_routes ! 0) = None \<and> outcome (calls two_routes ! 1) = None
   \<and> generated (calls two_routes ! 0) \<and> generated (calls two_routes ! 1)
   \<and> request_id (calls two_routes ! 0) \<noteq> request_id (calls two_routes ! 1)"
proof -
  have h2: "0 < length (calls two_routes)" and h3: "1 < length (calls two_routes)"
    by (simp_all add: two_routes_calls)
  have h4: "(0::nat) \<noteq> 1" by simp
  note h5 = two_routes_calls(2) and h6 = two_routes_calls(3)
    and h7 = two_routes_calls(4) and h8 = two_routes_calls(5)
  show ?thesis
    using h2 h3 h4 h5 h6 h7 h8
      generated_ids_distinct [OF two_routes_def h2 h3 h4 h5 h6 h7 h8]
    by simp
qed

section \<open>Two requests in flight\<close>

text \<open>
  C5. In every run, let two entries of \<^verbatim>\<open>pending_requests\<close> have different keys \<open>k1\<close> and
  \<open>k2\<close>. A response that carries \<open>k2\<close> leaves the call and the entry of \<open>k1\<close> as they
  are; it removes the entry of \<open>k2\<close> and resolves its future, and it touches no other
  call at all.
\<close>

theorem response_resolves_only_its_own:
  assumes "s = run rt es init_sys"
    and "pending_requests s k1 = Some f1" and "pending_requests s k2 = Some f2"
    and "k1 \<noteq> k2"
    and "hash_key (dict_get response ''id'') = Some k2"
    and "handle_unity_response response s = (x, s')"
  shows "f1 \<noteq> f2 \<and> calls s' ! f1 = calls s ! f1 \<and> pending_requests s' k1 = Some f1
     \<and> pending_requests s' k2 = None
     \<and> (\<forall>f. f \<noteq> f2 \<longrightarrow> calls s' ! f = calls s ! f)
     \<and> (future (calls s ! f2) = FPending \<longrightarrow> future (calls s' ! f2) = FResult response)"
proof -
  from assms(1) have "sys_inv s" by (simp add: inv_reachable)
  then have ip: "inv_pending s"
    by (simp add: sys_inv_def inv_calls_def)
  from inv_pending_inj [OF ip assms(2), of k2] assms(3,4) have ne: "f1 \<noteq> f2" by auto
  from assms(6) have s': "s' = snd (handle_unity_response response s)" by simp
  from inv_pendingD(1) [OF ip assms(3)] assms(2-5) ne show ?thesis
    unfolding s' by (simp add: handle_unity_response_def set_result_def Let_def)
qed

theorem response_resolves_only_its_own_witness:
  "pending_requests two_pending (KStr ''r1'') = Some 0
   \<and> pending_requests two_pending (KStr ''r2'') = Some 1
   \<and> KStr ''r1'' \<noteq> KStr ''r2''
   \<and> hash_key (dict_get [(''id'', JStr ''r2''), (''success'', JBool True)] ''id'') = Some (KStr ''r2'')
   \<and> future (calls two_pending ! 1) = FPending
   \<and> calls (snd (handle_unity_response [(''id'', JStr ''r2''), (''success'', JBool True)]
         two_pending)) ! 0 = calls two_pending ! 0
   \<and> future (calls (snd (handle_unity_response [(''id'', JStr ''r2''), (''success'', JBool True)]
         two_pending)) ! 1) = FResult [(''id'', JStr ''r2''), (''success'', JBool True)]"
proof -
  have h2: "pending_requests two_pending (KStr ''r1'') = Some 0"
    and h3: "pending_requests two_pending (KStr ''r2'') = Some 1"
    and h6: "future (calls two_pending ! 1) = FPending"
    by (simp_all add: two_pending_fields)
  have h4: "KStr ''r1'' \<noteq> KStr ''r2''"
    by simp
  have h5: "hash_key (dict_get [(''id'', JStr ''r2''), (''success'', JBool True)] ''id'')
      = Some (KStr ''r2'')"
    by (simp add: dict_get_def)
  show ?thesis
    using h2 h3 h4 h5 h6
      response_resolves_only_its_own [OF two_pending_def h2 h3 h4 h5 surjective_pairing]
    by simp
qed

section \<open>A client frame with no function name\<close>

text \<open>
  C6, as stated, fails. A client opens a connection and declares the client type
  \<^verbatim>\<open>"mcp_client"\<close>; \<^verbatim>\<open>manager.connect\<close> accepts the socket that the endpoint has
  accepted already, the framework raises \<^verbatim>\<open>RuntimeError\<close>, and the handler ends in its
  outer \<^verbatim>\<open>except\<close> clause before the loop. The channel is not the executor; the frame
  it sends next has no function name, nobody reads it, and no reply is written.
\<close>

theorem refused_client_no_reply_counterexample:
  "handlers refused_handshakes 1 = None
   \<and> unity_connection refused_handshakes \<noteq> Some 1
   \<and> \<not> truthy (dict_get [(''id'', JStr ''r9''), (''params'', JObj [])] ''function'')
   \<and> sent (run no_text
        [WsReceive 1 (JObj [(''id'', JStr ''r9''), (''params'', JObj [])]) 7 None]
        refused_handshakes) = []"
  by (simp add: refused_handshakes_eq init_sys_def obj_live_def ws_receive_def dict_get_def)

text \<open>
  C6, amended. In every run, when a frame that is a JSON object and whose \<^verbatim>\<open>function\<close>
  is missing (or otherwise falsy) is read by the loop of a handler whose client type is
  not \<^verbatim>\<open>"unity"\<close>, the only effect is one frame written to the sender: its \<^verbatim>\<open>id\<close> is the
  frame's, \<^verbatim>\<open>success\<close> is false and \<^verbatim>\<open>error\<close> is \<^verbatim>\<open>"Missing function name"\<close>. Nothing
  else changes, so \<^verbatim>\<open>send_to_unity\<close> is not called; the sender is not the executor
  channel, so nothing is written to it. A handler is in its loop only after a handshake
  whose first frame was an object declaring that client type and whose second \<^verbatim>\<open>accept\<close>
  raised nothing.
\<close>

theorem missing_function_name:
  assumes "s = run rt es init_sys"
    and "handlers s websocket = Some h" and "hstate h = Receiving"
    and "client_type h \<noteq> JStr ''unity''"
    and "\<not> truthy (dict_get msg ''function'')"
  shows "ws_receive rt websocket (JObj msg) obj tx s =
           s\<lparr>sent := sent s @ [(websocket,
              [(''id'', dict_get msg ''id''), (''success'', JBool False),
               (''error'', JStr ''Missing function name'')])]\<rparr>
       \<and> unity_connection s \<noteq> Some websocket
       \<and> (\<exists>d. WsOpen websocket (JObj d) None \<in> set es
            \<and> dict_get_default d ''client_type'' (JStr ''unknown'') = client_type h)"
proof -
  from assms(1) have "inv_conn s" by (simp add: inv_reachable [unfolded sys_inv_def])
  from inv_connD(3) [OF this, of websocket] assms(2,4)
  have "unity_connection s \<noteq> Some websocket" by auto
  moreover from assms(2-5) have "ws_receive rt websocket (JObj msg) obj tx s =
           s\<lparr>sent := sent s @ [(websocket,
              [(''id'', dict_get msg ''id''), (''success'', JBool False),
               (''error'', JStr ''Missing function name'')])]\<rparr>"
    by (simp add: ws_receive_def ws_client_message_def missing_function_reply_def)
  moreover from assms(1,2) have "\<exists>d. WsOpen websocket (JObj d) None \<in> set es
            \<and> client_type h = dict_get_default d ''client_type'' (JStr ''unknown'')"
    by (intro handler_declared_type) simp
  ultimately show ?thesis by auto
qed

theorem missing_function_name_witness:
  "handlers two_clients 1 = Some \<lparr>client_type = JStr ''mcp_client'', hstate = Receiving\<rparr>
   \<and> hstate \<lparr>client_type = JStr ''mcp_client'', hstate = Receiving\<rparr> = Receiving
   \<and> client_type \<lparr>client_type = JStr ''mcp_client'', hstate = Receiving\<rparr> \<noteq> JStr ''unity''
   \<and> \<not> truthy (dict_get [(''id'', JStr ''r9''), (''params'', JObj [])] ''function'')
   \<and> sent (ws_receive no_text 1 (JObj [(''id'', JStr ''r9''), (''params'', JObj [])]) 7 None
        two_clients) =
       [(1, [(''id'', JStr ''r9''), (''success'', JBool False),
             (''error'', JStr ''Missing function name'')])]
   \<and> unity_connection two_clients \<noteq> Some 1"
proof -
  have h2: "handlers two_clients 1 = Some \<lparr>client_type = JStr ''mcp_client'', hstate = Receiving\<rparr>"
    by (rule two_clients_fields)
  have h3: "hstate \<lparr>client_type = JStr ''mcp_client'', hstate = Receiving\<rparr> = Receiving"
    by simp
  have h4: "client_type \<lparr>client_type = JStr ''mcp_client'', hstate = Receiving\<rparr> \<noteq> JStr ''unity''"
    by simp
  have h5: "\<not> truthy (dict_get [(''id'', JStr ''r9''), (''params'', JObj [])] ''function'')"
    by (simp add: dict_get_def)
  show ?thesis
    using h2 h3 h4 h5
      missing_function_name [OF two_clients_def h2 h3 h4 h5, of 7 None]
    by (simp add: two_clients_fields dict_get_def)
qed

section \<open>Routing of inbound frames\<close>

text \<open>
  C7, as stated, fails. After the refused handshakes channel 1 is not the executor, and
  the frame it sends, a request \<^verbatim>\<open>"r1"\<close> with a function name, is not treated as a new
  request: no handler is left to read it, so \<^verbatim>\<open>send_to_unity\<close> is not called, no call
  and no entry of \<^verbatim>\<open>pending_requests\<close> are made, and nothing is written to any channel.
\<close>

theorem refused_client_not_submitted_counterexample:
  "unity_connection refused_handshakes \<noteq> Some 1
   \<and> active_connections refused_handshakes = []
   \<and> run no_text
        [WsReceive 1 (JObj [(''id'', JStr ''r1''), (''function'', JStr ''ping'')]) 7 None]
        refused_handshakes = refused_handshakes
   \<and> calls refused_handshakes = [] \<and> sent refused_handshakes = []
   \<and> pending_requests refused_handshakes (KStr ''r1'') = None"
  by (simp add: refused_handshakes_eq init_sys_def obj_live_def ws_receive_def)

text \<open>
  C7, amended. In every run, a handler that is in its loop holds the client type that
  the first frame of its handshake declared (\<^verbatim>\<open>"unknown"\<close> if none), and the second
  \<^verbatim>\<open>accept\<close> of that handshake raised nothing. A frame read by the loop goes to
  \<^verbatim>\<open>handle_unity_response\<close> if that type is \<^verbatim>\<open>"unity"\<close>; otherwise, if it is a JSON
  object, it is treated as a new request. The current executor is always a channel of
  type \<^verbatim>\<open>"unity"\<close>, so its frames are responses; the converse does not hold: the frames
  of an editor that a later one has replaced as the executor are responses still.
\<close>

theorem routing_by_declared_type:
  assumes "s = run rt es init_sys"
    and "handlers s websocket = Some h" and "hstate h = Receiving"
  shows "(\<exists>d. WsOpen websocket (JObj d) None \<in> set es
            \<and> client_type h = dict_get_default d ''client_type'' (JStr ''unknown''))
     \<and> (client_type h = JStr ''unity'' \<longrightarrow>
           ws_receive rt websocket frame obj tx s = ws_unity_message websocket frame s)
     \<and> (client_type h \<noteq> JStr ''unity'' \<longrightarrow>
           ws_receive rt websocket (JObj msg) obj tx s
             = ws_client_message rt websocket h msg obj tx s)
     \<and> (unity_connection s = Some websocket \<longrightarrow> client_type h = JStr ''unity'')"
proof -
  from assms(1) have "inv_conn s" by (simp add: inv_reachable [unfolded sys_inv_def])
  from inv_connD(3) [OF this, of websocket] assms(2)
  have "unity_connection s = Some websocket \<longrightarrow> client_type h = JStr ''unity''" by auto
  moreover from assms(1,2) have "\<exists>d. WsOpen websocket (JObj d) None \<in> set es
            \<and> client_type h = dict_get_default d ''client_type'' (JStr ''unknown'')"
    by (intro handler_declared_type) simp
  ultimately show ?thesis
    using assms(2,3) by (simp add: ws_receive_def)
qed

theorem routing_by_declared_type_witness:
  "handlers superseded 0 = Some \<lparr>client_type = JStr ''unity'', hstate = Receiving\<rparr>
   \<and> hstate \<lparr>client_type = JStr ''unity'', hstate = Receiving\<rparr> = Receiving
   \<and> client_type \<lparr>client_type = JStr ''unity'', hstate = Receiving\<rparr> = JStr ''unity''
   \<and> ws_receive no_text 0 (JObj [(''id'', JStr ''r1''), (''success'', JBool True)]) 8 None
         superseded
       = ws_unity_message 0 (JObj [(''id'', JStr ''r1''), (''success'', JBool True)]) superseded
   \<and> unity_connection superseded \<noteq> Some 0
   \<and> handlers two_clients 2 = Some \<lparr>client_type = JStr ''unknown'', hstate = Receiving\<rparr>
   \<and> client_type \<lparr>client_type = JStr ''unknown'', hstate = Receiving\<rparr> \<noteq> JStr ''unity''
   \<and> ws_receive no_text 2 (JObj [(''function'', JStr ''ping'')]) 8 None two_clients
       = ws_client_message no_text 2 \<lparr>client_type = JStr ''unknown'', hstate = Receiving\<rparr>
           [(''function'', JStr ''ping'')] 8 None two_clients"
proof -
  have a2: "handlers superseded 0 = Some \<lparr>client_type = JStr ''unity'', hstate = Receiving\<rparr>"
    by (rule superseded_fields)
  have a3: "hstate \<lparr>client_type = JStr ''unity'', hstate = Receiving\<rparr> = Receiving"
    by simp
  have a4: "unity_connection superseded \<noteq> Some 0"
    by (simp add: superseded_fields)
  have b2: "handlers two_clients 2 = Some \<lparr>client_type = JStr ''unknown'', hstate = Receiving\<rparr>"
    by (rule two_clients_fields)
  have b3: "hstate \<lparr>client_type = JStr ''unknown'', hstate = Receiving\<rparr> = Receiving"
    by simp
  show ?thesis
    using a2 a4 b2
      routing_by_declared_type [OF superseded_def a2 a3,
        of "JObj [(''id'', JStr ''r1''), (''success'', JBool True)]" 8 None "[]"]
      routing_by_declared_type [OF two_clients_def b2 b3,
        of "JNull" 8 None "[(''function'', JStr ''ping'')]"]
    by simp
qed

section \<open>Disconnecting\<close>

text \<open>
  C8. In every run, \<^verbatim>\<open>disconnect\<close> of a registered channel raises nothing, removes the
  channel from the active connections, clears the executor slot exactly when the
  channel was the executor, and leaves \<^verbatim>\<open>pending_requests\<close>, every call and its future,
  the clock and the frames written as they were: the requests in flight keep waiting
  for their own deadlines.
\<close>

theorem disconnect_frame:
  assumes "s = run rt es init_sys" and "c \<in> set (active_connections s)"
  shows "\<exists>s'. disconnect c s = Inr s'
     \<and> set (active_connections s') = set (active_connections s) - {c}
     \<and> unity_connection s' = (if unity_connection s = Some c then None else unity_connection s)
     \<and> pending_requests s' = pending_requests s \<and> calls s' = calls s \<and> now s' = now s
     \<and> sent s' = sent s"
proof -
  from assms(1) have "inv_conn s" by (simp add: inv_reachable [unfolded sys_inv_def])
  then have "distinct (active_connections s)" by (rule inv_connD)
  with assms(2) show ?thesis
    by (simp add: disconnect_def Let_def)
qed

theorem disconnect_frame_witness:
  "0 \<in> set (active_connections one_pending)
   \<and> disconnect 0 one_pending =
       Inr (one_pending\<lparr>active_connections := [1], unity_connection := None\<rparr>)
   \<and> pending_requests (one_pending\<lparr>active_connections := [1], unity_connection := None\<rparr>)
        (KStr ''r1'') = Some 0"
proof -
  have h2: "0 \<in> set (active_connections one_pending)"
    by (simp add: one_pending_fields)
  show ?thesis
    using h2 disconnect_frame [OF one_pending_def h2]
    by (simp add: one_pending_fields disconnect_def)
qed

section \<open>What a caller gets back\<close>

text \<open>
  C9. The repository's own test client expects an outcome with a success flag for its
  request; the endpoint gives it none. The endpoint accepts the socket, reads the
  client's first frame and calls \<^verbatim>\<open>manager.connect\<close>, which accepts the socket again; the
  framework raises \<^verbatim>\<open>RuntimeError\<close>, the outer \<^verbatim>\<open>except\<close> clause runs
  \<^verbatim>\<open>manager.disconnect\<close>, whose \<^verbatim>\<open>ValueError\<close> is swallowed, and the handler returns. The
  request \<^verbatim>\<open>"test_request"\<close> is read by nobody: no call is made and no frame is ever
  written to the client, whose connection ends instead. The editor's handshake ends the
  same way, so no executor is registered either.
\<close>

theorem test_client_gets_no_response:
  "sent test_connection = [] \<and> calls test_connection = []
   \<and> handlers test_connection 1 = None \<and> handlers test_connection 0 = None
   \<and> active_connections test_connection = [] \<and> unity_connection test_connection = None"
  by (simp add: test_connection_def model_defs)

section \<open>A caller-supplied identifier that is already pending\<close>

text \<open>
  C10. In every run, let \<^verbatim>\<open>send_to_unity\<close> be called with a message whose \<^verbatim>\<open>id\<close> is the
  key of an entry of \<^verbatim>\<open>pending_requests\<close>, with future \<open>f_old\<close>. The call is not refused:
  it waits on a new future, or raises what \<^verbatim>\<open>send_json\<close> raised. Afterwards the key names
  the new future, which is pending. From then on, whatever happens, no entry names
  \<open>f_old\<close>, it never holds a result and its call never returns a response: what the call
  has returned or raised changes only when its own timeout handler runs, and then to the
  timeout failure or to the \<^verbatim>\<open>KeyError\<close> of \<^verbatim>\<open>del\<close>.
\<close>

theorem duplicate_id_replaces_waiter:
  assumes "s = run rt es init_sys"
    and "unity_connection s = Some u"
    and "map_of msg ''id'' = Some rid" and "hash_key rid = Some k"
    and "pending_requests s k = Some f_old"
    and "send_to_unity msg obj tx s = (r, msg', s1)"
    and "s2 = run rt es' s1"
  shows "r = (case tx of None \<Rightarrow> Inr (length (calls s)) | Some e \<Rightarrow> Inl e)
     \<and> pending_requests s1 k = Some (length (calls s)) \<and> f_old < length (calls s)
     \<and> request_id (calls s1 ! length (calls s)) = rid
     \<and> future (calls s1 ! length (calls s)) = FPending
     \<and> (\<forall>k'. pending_requests s2 k' \<noteq> Some f_old)
     \<and> (\<forall>resp. future (calls s2 ! f_old) \<noteq> FResult resp)
     \<and> (\<forall>resp. outcome (calls s2 ! f_old) \<noteq> Some (Inr resp))
     \<and> (outcome (calls s2 ! f_old) = outcome (calls s ! f_old)
        \<or> TimeoutHandler f_old \<in> set es' \<and> outcome (calls s2 ! f_old) \<in>
             {Some (Inl (PyException ''Request to Unity timed out'')),
              Some (Inl (KeyError (request_id (calls s ! f_old))))})"
proof -
  from assms(1) have "sys_inv s" by (simp add: inv_reachable)
  then have ip: "inv_pending s" and io: "inv_outcome s"
    by (simp_all add: sys_inv_def inv_calls_def)
  note D = inv_pendingD [OF ip assms(5)]
  from io D(1,3) have out: "outcome (calls s ! f_old) \<noteq> Some (Inr x)" for x
    by (auto simp: inv_outcome_def)
  from assms(6) have s1: "s1 = snd (snd (send_to_unity msg obj tx s))"
    and r: "r = fst (send_to_unity msg obj tx s)" by simp_all
  have res: "r = (case tx of None \<Rightarrow> Inr (length (calls s)) | Some e \<Rightarrow> Inl e)"
    using assms(2-4) unfolding r
    by (cases tx) (simp_all add: send_to_unity_def dict_get_default_def Let_def)
  have new: "pending_requests s1 = (pending_requests s)(k \<mapsto> length (calls s))"
    "length (calls s1) = Suc (length (calls s))"
    "request_id (calls s1 ! length (calls s)) = rid"
    "future (calls s1 ! length (calls s)) = FPending"
    "calls s1 ! f_old = calls s ! f_old"
    using assms(2-4) D(1) unfolding s1
    by (cases tx; simp add: send_to_unity_def dict_get_default_def Let_def nth_append)+
  have "pending_requests s1 k' \<noteq> Some f_old" for k'
    using inv_pending_inj [OF ip assms(5), of k'] D(1) by (auto simp: new(1))
  with D new out have "detached s1 f_old"
    by (auto simp: detached_def)
  from detached_run [OF this, of rt es'] new D(1) res show ?thesis
    unfolding assms(7) detached_def by simp
qed

theorem duplicate_id_replaces_waiter_witness:
  "unity_connection one_pending = Some 0
   \<and> map_of [(''id'', JStr ''r1''), (''function'', JStr ''ping'')] ''id'' = Some (JStr ''r1'')
   \<and> hash_key (JStr ''r1'') = Some (KStr ''r1'')
   \<and> pending_requests one_pending (KStr ''r1'') = Some 0
   \<and> pending_requests replaced (KStr ''r1'') = Some 1
   \<and> TimeoutHandler 0 \<in> set [Tick 1, TimerFires 0, TimeoutHandler 0]
   \<and> outcome (calls (run no_text [Tick 1, TimerFires 0, TimeoutHandler 0] replaced) ! 0)
       = Some (Inl (PyException ''Request to Unity timed out''))
   \<and> pending_requests (run no_text [Tick 1, TimerFires 0, TimeoutHandler 0] replaced) (KStr ''r1'')
       \<noteq> Some 0"
proof -
  have h2: "unity_connection one_pending = Some 0"
    and h5: "pending_requests one_pending (KStr ''r1'') = Some 0"
    by (simp_all add: one_pending_fields)
  have h3: "map_of [(''id'', JStr ''r1''), (''function'', JStr ''ping'')] ''id'' = Some (JStr ''r1'')"
    and h4: "hash_key (JStr ''r1'') = Some (KStr ''r1'')"
    by simp_all
  have h6: "send_to_unity [(''id'', JStr ''r1''), (''function'', JStr ''ping'')] 8 None one_pending
      = (fst (send_to_unity [(''id'', JStr ''r1''), (''function'', JStr ''ping'')] 8 None one_pending),
         fst (snd (send_to_unity [(''id'', JStr ''r1''), (''function'', JStr ''ping'')] 8 None
           one_pending)), replaced)"
    unfolding replaced_def by (rule triple_collapse)
  have r: "calls replaced = calls one_pending @ [\<lparr>request_id = JStr ''r1'',
      request_message = [(''id'', JStr ''r1''), (''function'', JStr ''ping'')],
      message_obj = 8, generated = False, deadline = 59, future = FPending, outcome = None\<rparr>]"
    "pending_requests replaced = [KStr ''r1'' \<mapsto> 1]"
    "now replaced = 29"
    by (simp_all add: replaced_def one_pending_fields send_to_unity_def dict_get_default_def
          timeout_def Let_def)
  have o: "outcome (calls (run no_text [Tick 1, TimerFires 0, TimeoutHandler 0] replaced) ! 0)
       = Some (Inl (PyException ''Request to Unity timed out''))"
    by (simp add: r one_pending_fields timer_fires_def timeout_handler_def)
  show ?thesis
    using h2 h3 h4 h5 o
      duplicate_id_replaces_waiter [OF one_pending_def h2 h3 h4 h5 h6 refl,
        of "[Tick 1, TimerFires 0, TimeoutHandler 0]"]
    by (simp add: one_pending_fields)
qed

end
